(* ===== verification/Prelude.thy ===== *)
theory Prelude
  imports Main
begin

text \<open>
  Shared vocabulary of the development. The engine in \<open>src/.../Observer.ts\<close> keeps its
  state in JavaScript \<open>Map\<close> and \<open>Set\<close> objects whose iteration order is insertion
  order, and its scheduling order depends on that order. A JS \<open>Map\<close> is therefore an
  association list with distinct keys (\<open>jsmap\<close>), updated in place when the key is
  present and appended otherwise; a JS \<open>Set\<close> is a list without duplicates
  (\<open>jsset\<close>). Both refine the HOL abstractions: \<open>map_of\<close> of a \<open>jsmap\<close> is a partial
  map, \<open>set\<close> of a \<open>jsset\<close> a set, and every operation here commutes with that
  abstraction (lemmas \<open>map_of_jm_set\<close>, \<open>map_of_jm_delete\<close>, \<open>set_js_add\<close>).
  The collection \<open>js_simps\<close> gathers these facts for the component proofs.
\<close>

named_theorems js_simps "behaviour of the JS Map/Set model"

type_synonym elem_id = nat
type_synonym binder_key = string
type_synonym fn_id = nat

type_synonym ('k, 'v) jsmap = "('k \<times> 'v) list"
type_synonym 'a jsset = "'a list"

subsection \<open>JS Map\<close>

fun jm_set :: "'k \<Rightarrow> 'v \<Rightarrow> ('k, 'v) jsmap \<Rightarrow> ('k, 'v) jsmap" where
  "jm_set k v [] = [(k, v)]"
| "jm_set k v ((k', v') # m) = (if k' = k then (k, v) # m else (k', v') # jm_set k v m)"

definition jm_delete :: "'k \<Rightarrow> ('k, 'v) jsmap \<Rightarrow> ('k, 'v) jsmap" where
  "jm_delete k m = filter (\<lambda>p. fst p \<noteq> k) m"

abbreviation jm_keys :: "('k, 'v) jsmap \<Rightarrow> 'k list" where
  "jm_keys m \<equiv> map fst m"

text \<open>A property of every value of a map, the shape of the engine's invariants.\<close>

definition jm_all :: "('v \<Rightarrow> bool) \<Rightarrow> ('k, 'v) jsmap \<Rightarrow> bool" where
  "jm_all P m = list_all (\<lambda>e. P (snd e)) m"

subsection \<open>JS Set\<close>

definition js_add :: "'a \<Rightarrow> 'a jsset \<Rightarrow> 'a jsset" where
  "js_add x xs = (if x \<in> set xs then xs else xs @ [x])"

definition js_delete :: "'a \<Rightarrow> 'a jsset \<Rightarrow> 'a jsset" where
  "js_delete x xs = removeAll x xs"

subsection \<open>Refinement of HOL maps and sets\<close>

lemma map_of_jm_set [simp, js_simps]: "map_of (jm_set k v m) = (map_of m)(k \<mapsto> v)"
  by (induction m) (auto simp: fun_eq_iff)

lemma jm_keys_jm_set:
  "jm_keys (jm_set k v m) = (if k \<in> set (jm_keys m) then jm_keys m else jm_keys m @ [k])"
  by (induction k v m rule: jm_set.induct) auto

lemma keys_jm_set [simp, js_simps]: "fst ` set (jm_set k v m) = insert k (fst ` set m)"
  using arg_cong[where f = set, OF jm_keys_jm_set [of k v m]] by (auto split: if_splits)

lemma set_jm_set [js_simps]: "set (jm_set k v m) \<subseteq> insert (k, v) (set m)"
  by (induction k v m rule: jm_set.induct) auto

lemma distinct_jm_set [simp, js_simps]:
  "distinct (jm_keys m) \<Longrightarrow> distinct (jm_keys (jm_set k v m))"
  by (simp add: jm_keys_jm_set)

lemma jm_set_absent:
  "k \<notin> set (jm_keys m) \<Longrightarrow> jm_set k v m = m @ [(k, v)]"
  by (induction k v m rule: jm_set.induct) auto

lemma jm_all_jm_set [js_simps]: "jm_all P m \<Longrightarrow> P v \<Longrightarrow> jm_all P (jm_set k v m)"
  using set_jm_set [of k v m] by (auto simp: jm_all_def list_all_iff)

lemma jm_all_map_of [js_simps]: "jm_all P m \<Longrightarrow> map_of m k = Some v \<Longrightarrow> P v"
  unfolding jm_all_def list_all_iff by (metis map_of_SomeD snd_conv)

lemma jm_all_filter [js_simps]: "jm_all P m \<Longrightarrow> jm_all P (filter Q m)"
  by (auto simp: jm_all_def list_all_iff)

lemma map_of_jm_delete [simp, js_simps]: "map_of (jm_delete k m) = (map_of m)(k := None)"
  by (induction m) (auto simp: jm_delete_def fun_eq_iff)

lemma keys_jm_delete [simp, js_simps]: "fst ` set (jm_delete k m) = fst ` set m - {k}"
  by (induction m) (auto simp: jm_delete_def)

lemma distinct_jm_delete [simp, js_simps]:
  "distinct (jm_keys m) \<Longrightarrow> distinct (jm_keys (jm_delete k m))"
  by (simp add: jm_delete_def distinct_map_filter)

lemma set_js_add [simp, js_simps]: "set (js_add x xs) = insert x (set xs)"
  by (auto simp: js_add_def)

lemma distinct_js_add [simp, js_simps]: "distinct xs \<Longrightarrow> distinct (js_add x xs)"
  by (simp add: js_add_def)

lemma js_add_prefix: "\<exists>ys. js_add x xs = xs @ ys"
  by (auto simp: js_add_def)

lemma count_js_add [js_simps]: "count_list xs x \<le> 1 \<Longrightarrow> count_list (js_add y xs) x \<le> 1"
  by (auto simp: js_add_def)

lemma set_js_delete [simp, js_simps]: "set (js_delete x xs) = set xs - {x}"
  by (simp add: js_delete_def)

lemma distinct_js_delete [simp, js_simps]: "distinct xs \<Longrightarrow> distinct (js_delete x xs)"
  by (simp add: js_delete_def distinct_removeAll)

lemma set_fold_js_add [simp, js_simps]: "set (fold js_add xs ys) = set ys \<union> set xs"
  by (induction xs arbitrary: ys) auto

lemma distinct_fold_js_add [simp, js_simps]: "distinct ys \<Longrightarrow> distinct (fold js_add xs ys)"
  by (induction xs arbitrary: ys) auto

lemma fold_js_add_prefix: "\<exists>zs. fold js_add xs ys = ys @ zs"
proof (induction xs arbitrary: ys)
  case Nil
  show ?case by simp
next
  case (Cons x xs)
  from js_add_prefix obtain us where us: "js_add x ys = ys @ us" ..
  from Cons.IH obtain vs where vs: "fold js_add xs (js_add x ys) = js_add x ys @ vs" ..
  have "fold js_add (x # xs) ys = ys @ (us @ vs)" using us vs by simp
  then show ?case ..
qed

lemma concat_map_Nil [simp]: "concat (map (\<lambda>_. []) xs) = []"
  by (induction xs) auto

lemma distinct_count_le_1: "distinct xs \<Longrightarrow> count_list xs x \<le> 1"
  by (induction xs) auto

subsection \<open>Lists updated in place\<close>

lemma length_filter_update_same:
  "P (xs ! i) = P x \<Longrightarrow> length (filter P (xs[i := x])) = length (filter P xs)"
  by (induction xs arbitrary: i) (auto split: nat.splits)

lemma length_filter_update_drop:
  "i < length xs \<Longrightarrow> P (xs ! i) \<Longrightarrow> \<not> P x \<Longrightarrow>
   Suc (length (filter P (xs[i := x]))) = length (filter P xs)"
  by (induction xs arbitrary: i) (auto split: nat.splits)

subsection \<open>Invariants of folds\<close>

lemma foldl_invariant:
  "(\<And>acc x. x \<in> set xs \<Longrightarrow> P acc \<Longrightarrow> P (f acc x)) \<Longrightarrow> P acc \<Longrightarrow> P (foldl f acc xs)"
  by (induction xs arbitrary: acc) auto

subsection \<open>JS maps built by a fold of \<open>set\<close>\<close>

lemma foldl_jm_set_fresh:
  "distinct (map fst xs) \<Longrightarrow> set (map fst xs) \<inter> set (map fst acc) = {} \<Longrightarrow>
     foldl (\<lambda>A (k, v). jm_set k v A) acc xs = acc @ xs"
proof (induction xs arbitrary: acc)
  case (Cons x xs)
  obtain k v where x: "x = (k, v)" by fastforce
  have "k \<notin> set (map fst acc)" using Cons.prems x by auto
  then have "jm_set k v acc = acc @ [(k, v)]" by (simp add: jm_set_absent)
  then show ?case using Cons x by simp
qed simp

lemma list_all_jm_set: "list_all P m \<Longrightarrow> P (k, v) \<Longrightarrow> list_all P (jm_set k v m)"
  by (induction k v m rule: jm_set.induct) auto

lemma map_of_Some_key: "map_of xs k = Some v \<Longrightarrow> k \<in> fst ` set xs"
  using map_of_SomeD by force

lemma in_jm_delete: "x \<in> set (jm_delete k m) \<Longrightarrow> x \<in> set m"
  by (simp add: jm_delete_def)

lemma in_jm_set: "x \<in> set (jm_set k v m) \<Longrightarrow> x = (k, v) \<or> x \<in> set m"
  using set_jm_set by fastforce

end
