(* ===== verification/Registry.thy ===== *)
theory Registry
  imports Prelude
begin

text \<open>
  The consumer registry: \<open>ElementRegister\<close> of \<open>WcRegister.ts\<close> and the binder map of
  each component instance (\<open>_dataBinderMap\<close> of class \<open>Wc\<close> in \<open>Wc.ts\<close>, read by
  \<open>_findBinderFunc\<close> and shrunk by \<open>_removeBinderKey\<close>). The engine asks it whether a
  consumer is live (\<open>getEl\<close>), resolves a binding key to one function or a list of
  functions, and drops a binding whose function threw. Functions are represented by
  their identity (\<open>fn_id\<close>), which is all the engine compares.
\<close>

datatype binder_fn = BFun fn_id | BFuns "fn_id list"

record wc_el =
  el_tag :: string
  el_binders :: "(binder_key, binder_fn) jsmap"

record el_register =
  id_counter :: nat
  register_map :: "(elem_id, wc_el) jsmap"

definition init_register :: el_register where
  "init_register = \<lparr>id_counter = 1, register_map = []\<rparr>"

definition register :: "wc_el \<Rightarrow> el_register \<Rightarrow> elem_id \<times> el_register" where
  "register el R =
     (let id = id_counter R
      in (id, R\<lparr>id_counter := Suc id, register_map := jm_set id el (register_map R)\<rparr>))"

definition unregister :: "elem_id \<Rightarrow> el_register \<Rightarrow> el_register" where
  "unregister wcId R = R\<lparr>register_map := jm_delete wcId (register_map R)\<rparr>"

definition getEl :: "el_register \<Rightarrow> elem_id \<Rightarrow> wc_el option" where
  "getEl R elId = map_of (register_map R) elId"

definition ascii_lower :: "char \<Rightarrow> char" where
  "ascii_lower c =
     (let n = (of_char c :: nat) in if 65 \<le> n \<and> n \<le> 90 then char_of (n + 32) else c)"

definition findByTag :: "el_register \<Rightarrow> string \<Rightarrow> wc_el list" where
  "findByTag R tag = [snd p. p \<leftarrow> register_map R, map ascii_lower (el_tag (snd p)) = tag]"

definition findBinderFunc :: "wc_el \<Rightarrow> binder_key \<Rightarrow> binder_fn option" where
  "findBinderFunc el key = map_of (el_binders el) key"

definition removeBinderKey :: "binder_key \<Rightarrow> wc_el \<Rightarrow> wc_el" where
  "removeBinderKey key el = el\<lparr>el_binders := jm_delete key (el_binders el)\<rparr>"

text \<open>
  \<open>wcRegister.getEl(wcId)?._removeBinderKey(binderKey)\<close>: the element object is
  mutated in place, so its entry keeps its position in the register.
\<close>

definition drop_binding :: "el_register \<Rightarrow> elem_id \<Rightarrow> binder_key \<Rightarrow> el_register" where
  "drop_binding R wcId key =
     (case getEl R wcId of
        None \<Rightarrow> R
      | Some el \<Rightarrow> R\<lparr>register_map := jm_set wcId (removeBinderKey key el) (register_map R)\<rparr>)"

subsection \<open>Invariant\<close>

text \<open>Every registered id is positive, below the counter, and registered once.\<close>

definition reg_inv :: "el_register \<Rightarrow> bool" where
  "reg_inv R \<longleftrightarrow> 0 < id_counter R \<and> distinct (jm_keys (register_map R))
     \<and> (\<forall>i \<in> fst ` set (register_map R). 0 < i \<and> i < id_counter R)"

lemma reg_inv_init: "reg_inv init_register"
  by (simp add: reg_inv_def init_register_def)

lemma register_fresh: "reg_inv R \<Longrightarrow> getEl R (fst (register el R)) = None"
  by (fastforce simp: reg_inv_def register_def getEl_def map_of_eq_None_iff Let_def)

lemma reg_inv_register: "reg_inv R \<Longrightarrow> reg_inv (snd (register el R))"
  by (auto simp: reg_inv_def register_def Let_def)

lemma reg_inv_unregister: "reg_inv R \<Longrightarrow> reg_inv (unregister wcId R)"
  by (auto simp: reg_inv_def unregister_def)

lemma getEl_drop_binding:
  "getEl (drop_binding R wcId key) i =
     (if i = wcId then map_option (removeBinderKey key) (getEl R wcId) else getEl R i)"
  by (auto simp: drop_binding_def getEl_def split: option.splits)

lemma keys_drop_binding: "fst ` set (register_map (drop_binding R wcId key)) =
    fst ` set (register_map R)"
  by (auto simp: drop_binding_def getEl_def split: option.splits
      intro: rev_image_eqI dest: map_of_SomeD)

lemma reg_inv_drop_binding: "reg_inv R \<Longrightarrow> reg_inv (drop_binding R wcId key)"
proof -
  assume "reg_inv R"
  moreover have "id_counter (drop_binding R wcId key) = id_counter R"
    by (simp add: drop_binding_def split: option.splits)
  moreover have "distinct (jm_keys (register_map R)) \<Longrightarrow>
      distinct (jm_keys (register_map (drop_binding R wcId key)))"
    by (simp add: drop_binding_def split: option.splits)
  ultimately show ?thesis
    by (simp add: reg_inv_def keys_drop_binding)
qed

lemma findBinderFunc_removeBinderKey:
  "findBinderFunc (removeBinderKey key el) k = (if k = key then None else findBinderFunc el k)"
  by (simp add: findBinderFunc_def removeBinderKey_def)

text \<open>
  C19 (registration): \<open>register\<close> hands out the current counter as a fresh id under
  which the element is found afterwards, leaves every other lookup alone, and
  \<open>unregister\<close> of that id makes the element dead again.
\<close>

theorem register_getEl:
  assumes "reg_inv R" and "register el R = (i, R')"
  shows "i = id_counter R \<and> getEl R i = None \<and> getEl R' i = Some el
    \<and> (\<forall>j. j \<noteq> i \<longrightarrow> getEl R' j = getEl R j) \<and> getEl (unregister i R') i = None
    \<and> reg_inv R'"
proof -
  have "getEl R i = None" using register_fresh [OF assms(1), of el] assms(2) by simp
  moreover have "reg_inv R'" using reg_inv_register [OF assms(1), of el] assms(2) by simp
  ultimately show ?thesis using assms(2)
    by (auto simp: register_def getEl_def unregister_def Let_def)
qed

end
