(* ===== verification/Depends.thy ===== *)
theory Depends
  imports Registry
begin

text \<open>
  The dependency index of one tracked object: class \<open>Depends\<close> of \<open>Observer.ts\<close>
  (lines 144--236). Its \<open>_trackMap\<close> is a JS \<open>Map\<close> from a property key, or the
  structural pseudo-key \<open>SymbolSelfDependes\<close> (\<open>PSelf\<close>), to a \<open>Map\<close> from consumer
  id to a \<open>Set\<close> of binding keys. \<open>_noticeChange\<close> walks the entry of one key, prunes
  consumers that are no longer registered and binding keys that no longer resolve, and
  adds every resolved function to the global pending set \<open>_dependsTracker.callerSet\<close>,
  counting the notices and tagging each function with \<open>__tracker\<close> metadata.

  The edge abstraction \<open>has_edge\<close> reads the index as a set of triples
  (key, consumer, binding key); \<open>add_deps\<close> inserts one, \<open>removePropDeps\<close> removes
  those of one key, and \<open>noticeChange\<close> removes the stale edges of its key and nothing
  else.
\<close>

datatype prop_key = PStr string | PSelf

type_synonym dep_map = "(elem_id, binder_key jsset) jsmap"
type_synonym depends = "(prop_key, dep_map) jsmap"

record depends_tracker =
  callerSet :: "fn_id jsset"
  realtimeNotices :: nat
  fn_tracker_tag :: "fn_id \<Rightarrow> (prop_key \<times> elem_id \<times> binder_key \<times> string) option"

definition getDeps :: "depends \<Rightarrow> prop_key \<Rightarrow> dep_map option" where
  "getDeps D prop = map_of D prop"

definition addDeps :: "prop_key \<Rightarrow> elem_id \<times> binder_key \<Rightarrow> depends \<Rightarrow> depends" where
  "addDeps prop dep D =
     (let depsMap = (case map_of D prop of None \<Rightarrow> [] | Some m \<Rightarrow> m);
          depSet = (case map_of depsMap (fst dep) of None \<Rightarrow> [] | Some s \<Rightarrow> s)
      in jm_set prop (jm_set (fst dep) (js_add (snd dep) depSet) depsMap) D)"

definition removePropDeps :: "prop_key \<Rightarrow> depends \<Rightarrow> depends" where
  "removePropDeps prop D = jm_delete prop D"

subsection \<open>Notification\<close>

definition add_caller ::
  "prop_key \<Rightarrow> elem_id \<Rightarrow> binder_key \<Rightarrow> string \<Rightarrow> fn_id \<Rightarrow> depends_tracker \<Rightarrow> depends_tracker" where
  "add_caller prop wcId key nm f T =
     T\<lparr>realtimeNotices := Suc (realtimeNotices T),
       fn_tracker_tag := (fn_tracker_tag T)(f \<mapsto> (prop, wcId, key, nm)),
       callerSet := js_add f (callerSet T)\<rparr>"

fun notice_binder ::
  "prop_key \<Rightarrow> elem_id \<Rightarrow> binder_key \<Rightarrow> binder_fn \<Rightarrow> depends_tracker \<Rightarrow> depends_tracker" where
  "notice_binder prop wcId key (BFuns fs) T = fold (add_caller prop wcId key ''__tracker 1'') fs T"
| "notice_binder prop wcId key (BFun f) T = add_caller prop wcId key ''__tracker 2'' f T"

text \<open>The inner \<open>trackerSet.forEach\<close>: unresolved keys are deleted from the set.\<close>

fun notice_keys ::
  "prop_key \<Rightarrow> elem_id \<Rightarrow> wc_el \<Rightarrow> binder_key list \<Rightarrow> depends_tracker
   \<Rightarrow> binder_key list \<times> depends_tracker" where
  "notice_keys prop wcId el [] T = ([], T)"
| "notice_keys prop wcId el (k # ks) T =
     (case findBinderFunc el k of
        None \<Rightarrow> notice_keys prop wcId el ks T
      | Some b \<Rightarrow>
          (case notice_keys prop wcId el ks (notice_binder prop wcId k b T) of
             (ks', T') \<Rightarrow> (k # ks', T')))"

text \<open>The outer \<open>propDeps.forEach\<close>: consumers that \<open>getEl\<close> no longer finds are deleted.\<close>

fun notice_map ::
  "el_register \<Rightarrow> prop_key \<Rightarrow> dep_map \<Rightarrow> depends_tracker \<Rightarrow> dep_map \<times> depends_tracker" where
  "notice_map R prop [] T = ([], T)"
| "notice_map R prop ((wcId, ks) # rest) T =
     (case getEl R wcId of
        None \<Rightarrow> notice_map R prop rest T
      | Some el \<Rightarrow>
          (case notice_keys prop wcId el ks T of
             (ks', T') \<Rightarrow>
               (case notice_map R prop rest T' of
                  (rest', T'') \<Rightarrow> ((wcId, ks') # rest', T''))))"

definition noticeChange ::
  "el_register \<Rightarrow> prop_key \<Rightarrow> depends \<Rightarrow> depends_tracker \<Rightarrow> depends \<times> depends_tracker" where
  "noticeChange R prop D T =
     (case map_of D prop of
        None \<Rightarrow> (D, T)
      | Some propDeps \<Rightarrow>
          (case notice_map R prop propDeps T of
             (propDeps', T') \<Rightarrow> (jm_set prop propDeps' D, T')))"

subsection \<open>Abstractions\<close>

definition has_edge :: "depends \<Rightarrow> prop_key \<Rightarrow> elem_id \<Rightarrow> binder_key \<Rightarrow> bool" where
  "has_edge D prop wcId key =
     (case map_of D prop of
        None \<Rightarrow> False
      | Some m \<Rightarrow> (case map_of m wcId of None \<Rightarrow> False | Some ks \<Rightarrow> key \<in> set ks))"

text \<open>The functions a binding key resolves to, in the order they are scheduled.\<close>

definition binder_fns :: "wc_el \<Rightarrow> binder_key \<Rightarrow> fn_id list" where
  "binder_fns el key =
     (case findBinderFunc el key of
        None \<Rightarrow> []
      | Some (BFun f) \<Rightarrow> [f]
      | Some (BFuns fs) \<Rightarrow> fs)"

definition resolved_fns :: "el_register \<Rightarrow> elem_id \<Rightarrow> binder_key \<Rightarrow> fn_id list" where
  "resolved_fns R wcId key = (case getEl R wcId of None \<Rightarrow> [] | Some el \<Rightarrow> binder_fns el key)"

definition resolves :: "el_register \<Rightarrow> elem_id \<Rightarrow> binder_key \<Rightarrow> bool" where
  "resolves R wcId key =
     (case getEl R wcId of None \<Rightarrow> False | Some el \<Rightarrow> findBinderFunc el key \<noteq> None)"

text \<open>The order in which one notification adds functions to the pending set.\<close>

definition notice_order :: "el_register \<Rightarrow> dep_map \<Rightarrow> fn_id list" where
  "notice_order R m = concat (map (\<lambda>(wcId, ks). concat (map (resolved_fns R wcId) ks)) m)"

text \<open>
  Well-formedness of the index: keys are unique at both levels and every binding-key set
  is duplicate-free. JS \<open>Map\<close> and \<open>Set\<close> guarantee it; here it is proved kept.
\<close>

definition dm_inv :: "dep_map \<Rightarrow> bool" where
  "dm_inv m \<longleftrightarrow> distinct (jm_keys m) \<and> jm_all distinct m"

definition dep_inv :: "depends \<Rightarrow> bool" where
  "dep_inv D \<longleftrightarrow> distinct (jm_keys D) \<and> jm_all dm_inv D"

subsection \<open>Behaviour of the notification walk\<close>

named_theorems notice_simps "what one notification does to the tracker"

lemma callerSet_fold_add_caller [notice_simps]:
  "callerSet (fold (add_caller pk wcId key nm) fs T) = fold js_add fs (callerSet T)"
  by (induction fs arbitrary: T) (simp_all add: add_caller_def)

lemma notices_fold_add_caller [notice_simps]:
  "realtimeNotices (fold (add_caller pk wcId key nm) fs T) = realtimeNotices T + length fs"
  by (induction fs arbitrary: T) (simp_all add: add_caller_def)

lemma callerSet_notice_binder [notice_simps]:
  "findBinderFunc el k = Some b \<Longrightarrow>
   callerSet (notice_binder pk wcId k b T) = fold js_add (binder_fns el k) (callerSet T)"
  by (cases b) (simp_all add: binder_fns_def callerSet_fold_add_caller add_caller_def)

lemma notices_notice_binder [notice_simps]:
  "findBinderFunc el k = Some b \<Longrightarrow>
   realtimeNotices (notice_binder pk wcId k b T) = realtimeNotices T + length (binder_fns el k)"
  by (cases b) (simp_all add: binder_fns_def notices_fold_add_caller add_caller_def)

lemma fst_notice_keys [notice_simps]:
  "fst (notice_keys pk wcId el ks T) = filter (\<lambda>k. findBinderFunc el k \<noteq> None) ks"
  by (induction pk wcId el ks T rule: notice_keys.induct)
     (auto split: option.splits prod.splits)

lemma binder_fns_None: "findBinderFunc el k = None \<Longrightarrow> binder_fns el k = []"
  by (simp add: binder_fns_def)

lemma callerSet_notice_keys [notice_simps]:
  "callerSet (snd (notice_keys pk wcId el ks T)) =
     fold js_add (concat (map (binder_fns el) ks)) (callerSet T)"
  by (induction pk wcId el ks T rule: notice_keys.induct)
     (auto simp: binder_fns_None callerSet_notice_binder split: option.splits prod.splits)

lemma notices_notice_keys [notice_simps]:
  "realtimeNotices (snd (notice_keys pk wcId el ks T)) =
     realtimeNotices T + length (concat (map (binder_fns el) ks))"
  by (induction pk wcId el ks T rule: notice_keys.induct)
     (auto simp: binder_fns_None notices_notice_binder split: option.splits prod.splits)

lemma resolved_fns_dead: "getEl R wcId = None \<Longrightarrow> resolved_fns R wcId = (\<lambda>_. [])"
  by (simp add: resolved_fns_def fun_eq_iff)

lemma resolved_fns_live: "getEl R wcId = Some el \<Longrightarrow> resolved_fns R wcId = binder_fns el"
  by (simp add: resolved_fns_def fun_eq_iff)

lemma notice_map_dead [notice_simps]:
  "getEl R w = None \<Longrightarrow> notice_map R pk ((w, ks) # rest) T = notice_map R pk rest T"
  by simp

lemma notice_map_live [notice_simps]:
  "getEl R w = Some el \<Longrightarrow> notice_map R pk ((w, ks) # rest) T =
     (let nk = notice_keys pk w el ks T; nm = notice_map R pk rest (snd nk)
      in ((w, fst nk) # fst nm, snd nm))"
  by (simp add: Let_def split: prod.splits)

declare notice_map.simps(2) [simp del]

lemma callerSet_notice_map [notice_simps]:
  "callerSet (snd (notice_map R pk m T)) = fold js_add (notice_order R m) (callerSet T)"
proof (induction m arbitrary: T)
  case Nil
  then show ?case by (simp add: notice_order_def)
next
  case (Cons e rest)
  obtain w ks where e: "e = (w, ks)" by fastforce
  show ?case
  proof (cases "getEl R w")
    case None
    then show ?thesis using Cons.IH by (simp add: e notice_map_dead notice_order_def resolved_fns_dead)
  next
    case (Some el)
    then show ?thesis using Cons.IH
      by (simp add: e notice_map_live Let_def notice_order_def resolved_fns_live callerSet_notice_keys)
  qed
qed

lemma map_of_notice_map [notice_simps]:
  "map_of (fst (notice_map R pk m T)) w =
     (case map_of m w of
        None \<Rightarrow> None
      | Some ks \<Rightarrow> (case getEl R w of
                     None \<Rightarrow> None
                   | Some el \<Rightarrow> Some (filter (\<lambda>k. findBinderFunc el k \<noteq> None) ks)))"
proof (induction m arbitrary: T)
  case Nil
  then show ?case by simp
next
  case (Cons e rest)
  obtain w' ks where e: "e = (w', ks)" by fastforce
  show ?case
  proof (cases "getEl R w'")
    case None
    with Cons.IH show ?thesis by (cases "w = w'") (auto simp: e notice_map_dead split: option.splits)
  next
    case (Some el)
    with Cons.IH show ?thesis
      by (cases "w = w'") (auto simp: e notice_map_live Let_def fst_notice_keys)
  qed
qed

lemma noticeChange_eq [notice_simps]:
  "noticeChange R p D T =
     (case map_of D p of
        None \<Rightarrow> (D, T)
      | Some m \<Rightarrow> (jm_set p (fst (notice_map R p m T)) D, snd (notice_map R p m T)))"
  by (simp add: noticeChange_def split: option.splits prod.splits)

lemma keys_notice_map:
  "jm_keys (fst (notice_map R pk m T)) = filter (\<lambda>w. getEl R w \<noteq> None) (jm_keys m)"
proof (induction m arbitrary: T)
  case (Cons e rest)
  then show ?case
    by (cases e, cases "getEl R (fst e)") (auto simp: notice_map_live notice_map_dead Let_def)
qed simp

lemma entries_notice_map:
  "(w, ks') \<in> set (fst (notice_map R pk m T)) \<Longrightarrow>
     \<exists>ks el. (w, ks) \<in> set m \<and> getEl R w = Some el \<and> ks' = filter (\<lambda>k. findBinderFunc el k \<noteq> None) ks"
proof (induction m arbitrary: T)
  case (Cons e rest)
  then show ?case
    by (cases e, cases "getEl R (fst e)")
       (fastforce simp: notice_map_live notice_map_dead Let_def fst_notice_keys)+
qed simp

subsection \<open>The index as a set of edges\<close>

lemma has_edge_addDeps:
  "has_edge (addDeps p (w, k) D) p' w' k' \<longleftrightarrow> has_edge D p' w' k' \<or> (p', w', k') = (p, w, k)"
  by (auto simp: has_edge_def addDeps_def Let_def split: option.splits)

lemma has_edge_removePropDeps:
  "has_edge (removePropDeps p D) p' w k \<longleftrightarrow> has_edge D p' w k \<and> p' \<noteq> p"
  by (auto simp: has_edge_def removePropDeps_def split: option.splits)

text \<open>
  C7 (pruning): after \<open>_noticeChange(prop)\<close> the index holds exactly the edges it held
  before, minus the edges of \<open>prop\<close> whose consumer is no longer registered or whose
  binding key no longer resolves; the edges of every other key are untouched.
\<close>

theorem has_edge_noticeChange:
  "has_edge (fst (noticeChange R p D T)) p' w k \<longleftrightarrow>
     has_edge D p' w k \<and> (p' = p \<longrightarrow> resolves R w k)"
proof (cases "p' = p")
  case True
  then show ?thesis
    by (auto simp: has_edge_def noticeChange_eq map_of_notice_map resolves_def
        split: option.splits)
next
  case False
  then show ?thesis
    by (auto simp: has_edge_def noticeChange_eq split: option.splits)
qed

subsection \<open>The invariant is kept\<close>

lemma dm_inv_lookup: "dep_inv D \<Longrightarrow> dm_inv (case map_of D p of None \<Rightarrow> [] | Some m \<Rightarrow> m)"
proof (cases "map_of D p")
  case None
  then show ?thesis by (simp add: dm_inv_def jm_all_def)
next
  case (Some m)
  moreover assume "dep_inv D"
  ultimately show ?thesis by (auto simp: dep_inv_def dest: jm_all_map_of)
qed

lemma distinct_lookup: "dm_inv m \<Longrightarrow> distinct (case map_of m w of None \<Rightarrow> [] | Some s \<Rightarrow> s)"
  by (cases "map_of m w") (auto simp: dm_inv_def dest: jm_all_map_of)

text \<open>\<open>_addDeps\<close> keeps the index well formed.\<close>

theorem dep_inv_addDeps: "dep_inv D \<Longrightarrow> dep_inv (addDeps p (w, k) D)"
proof -
  assume inv: "dep_inv D"
  let ?dm = "case map_of D p of None \<Rightarrow> [] | Some m \<Rightarrow> m"
  have dm: "dm_inv ?dm" using inv by (rule dm_inv_lookup)
  let ?ks = "case map_of ?dm w of None \<Rightarrow> [] | Some s \<Rightarrow> s"
  have "distinct ?ks" using dm by (rule distinct_lookup)
  then have "dm_inv (jm_set w (js_add k ?ks) ?dm)"
    using dm by (simp add: dm_inv_def jm_all_jm_set)
  then show ?thesis
    using inv by (simp add: dep_inv_def addDeps_def Let_def jm_all_jm_set)
qed

lemma dep_inv_removePropDeps: "dep_inv D \<Longrightarrow> dep_inv (removePropDeps p D)"
  by (simp add: dep_inv_def removePropDeps_def jm_delete_def jm_all_filter distinct_map_filter)

lemma dm_inv_notice_map: "dm_inv m \<Longrightarrow> dm_inv (fst (notice_map R pk m T))"
  unfolding dm_inv_def
  by (auto simp: keys_notice_map jm_all_def list_all_iff dest!: entries_notice_map)

text \<open>\<open>_noticeChange\<close> keeps the index well formed while it prunes.\<close>

theorem dep_inv_noticeChange: "dep_inv D \<Longrightarrow> dep_inv (fst (noticeChange R p D T))"
proof (cases "map_of D p")
  case (Some m)
  assume inv: "dep_inv D"
  then have "dm_inv m" using Some by (auto simp: dep_inv_def dest: jm_all_map_of)
  then have "dm_inv (fst (notice_map R p m T))" by (rule dm_inv_notice_map)
  with inv Some show ?thesis by (simp add: dep_inv_def noticeChange_eq jm_all_jm_set)
qed (simp add: noticeChange_eq)

lemma callerSet_noticeChange [notice_simps]:
  "callerSet (snd (noticeChange R p D T)) =
     fold js_add (case map_of D p of None \<Rightarrow> [] | Some m \<Rightarrow> notice_order R m) (callerSet T)"
  by (simp add: noticeChange_eq callerSet_notice_map split: option.splits)

lemma set_notice_order:
  "distinct (jm_keys m) \<Longrightarrow> set (notice_order R m) =
     {f. \<exists>w ks k. map_of m w = Some ks \<and> k \<in> set ks \<and> f \<in> set (resolved_fns R w k)}"
  by (auto simp: notice_order_def)


text \<open>
  C8: one notification adds to the pending set exactly the functions that the binding
  keys recorded for the property resolve to, over live consumers, and nothing else.
\<close>

theorem noticeChange_schedules:
  assumes "dep_inv D"
  shows "set (callerSet (snd (noticeChange R p D T))) =
           set (callerSet T) \<union> {f. \<exists>w k. has_edge D p w k \<and> f \<in> set (resolved_fns R w k)}"
proof (cases "map_of D p")
  case None
  then show ?thesis by (simp add: callerSet_noticeChange has_edge_def)
next
  case (Some m)
  have "dm_inv m" using assms Some by (auto simp: dep_inv_def dest: jm_all_map_of)
  then have "set (notice_order R m) =
      {f. \<exists>w ks k. map_of m w = Some ks \<and> k \<in> set ks \<and> f \<in> set (resolved_fns R w k)}"
    by (simp add: dm_inv_def set_notice_order)
  moreover have "has_edge D p w k \<longleftrightarrow> (\<exists>ks. map_of m w = Some ks \<and> k \<in> set ks)" for w k
    using Some by (simp add: has_edge_def split: option.splits)
  ultimately show ?thesis using Some
    by (simp add: callerSet_noticeChange set_fold_js_add) blast
qed

end
