(* ===== verification/Heap.thy ===== *)
theory Heap
  imports Depends
begin

text \<open>
  The values and objects the instrumented wrapper works on, and the wrapper itself
  (\<open>Observer._mkProxy\<close>, \<open>Observer.ts\<close> lines 322--454). Objects live in an explicit
  heap, a list indexed by object identity, because the wrapper mutates shared objects in
  place and its behaviour depends on aliasing. A reference is either the raw object
  (\<open>Raw a\<close>) or the interception proxy created for it (\<open>Prox a\<close>). Each object carries
  the two hidden properties the code defines: \<open>SymbolObserver\<close> (its dependency index,
  \<open>observer\<close>) and \<open>SymbolProxyedObj\<close> (\<open>proxied\<close>), besides its own properties in
  insertion order. A property is a plain data property (\<open>PData\<close>, writable and
  configurable) or an accessor installed by \<open>watch\<close> (\<open>PWatch\<close>, whose value lives in
  the accessor's closure).

  \<open>mk_proxy\<close> recurses into nested objects before it creates the proxy; it marks the
  object first, so every nested call sees one unmarked object fewer. It is defined with
  fuel, and \<open>mkProxy\<close> supplies one unit more than the number of unmarked objects,
  which \<open>mk_proxy_enough\<close> shows is always enough.
\<close>

datatype obj_kind = KPlain | KArray | KSet | KMap

datatype ref = Raw nat | Prox nat

datatype jsval = JUndef | JNull | JBool bool | JNum int | JStr string
  | JFun fn_id | JBound fn_id nat | JRef ref

datatype pval = PData jsval | PWatch jsval

record js_obj =
  kind :: obj_kind
  props :: "(string, pval) jsmap"
  observer :: "depends option"
  proxied :: bool
  extensible :: bool
  system_obj :: bool

type_synonym heap = "js_obj list"

definition obj_at :: "heap \<Rightarrow> nat \<Rightarrow> js_obj option" where
  "obj_at h a = (if a < length h then Some (h ! a) else None)"

fun pval_value :: "pval \<Rightarrow> jsval" where
  "pval_value (PData v) = v"
| "pval_value (PWatch v) = v"

text \<open>\<open>typeof v == "object"\<close>: \<open>null\<close> and every object reference, not functions.\<close>

fun typeof_object :: "jsval \<Rightarrow> bool" where
  "typeof_object JNull = True"
| "typeof_object (JRef r) = True"
| "typeof_object v = False"

definition prop_value :: "js_obj \<Rightarrow> string \<Rightarrow> jsval" where
  "prop_value ob p = (case map_of (props ob) p of None \<Rightarrow> JUndef | Some pv \<Rightarrow> pval_value pv)"

text \<open>\<open>obj[k] = v\<close> on the raw object: the data property is updated in place or appended.\<close>

definition write_prop :: "heap \<Rightarrow> nat \<Rightarrow> string \<Rightarrow> jsval \<Rightarrow> heap" where
  "write_prop h a k v =
     (case obj_at h a of
        None \<Rightarrow> h
      | Some ob \<Rightarrow> h[a := ob\<lparr>props := jm_set k (PData v) (props ob)\<rparr>])"

subsection \<open>Own keys in JS order\<close>

text \<open>
  \<open>Reflect.ownKeys\<close> lists integer-index keys in ascending numeric order first, then
  the other string keys in creation order (symbols are dropped by the wrapper).
\<close>

definition is_digit :: "char \<Rightarrow> bool" where
  "is_digit c \<longleftrightarrow> (48::nat) \<le> of_char c \<and> (of_char c :: nat) \<le> 57"

definition digits_value :: "string \<Rightarrow> nat" where
  "digits_value s = foldl (\<lambda>n c. 10 * n + (of_char c - 48)) 0 s"

definition is_array_index :: "string \<Rightarrow> bool" where
  "is_array_index s \<longleftrightarrow> s \<noteq> [] \<and> list_all is_digit s \<and> (s = ''0'' \<or> hd s \<noteq> CHR ''0'')
     \<and> digits_value s < 4294967295"

definition own_string_keys :: "js_obj \<Rightarrow> string list" where
  "own_string_keys ob =
     sort_key digits_value (filter is_array_index (jm_keys (props ob)))
     @ filter (\<lambda>k. \<not> is_array_index k) (jm_keys (props ob))"

subsection \<open>The wrapper\<close>

definition mark_observed :: "heap \<Rightarrow> nat \<Rightarrow> heap" where
  "mark_observed h a = h[a := (h ! a)\<lparr>observer := Some []\<rparr>]"

definition mark_proxied :: "heap \<Rightarrow> nat \<Rightarrow> heap" where
  "mark_proxied h a =
     (if kind (h ! a) = KSet \<or> kind (h ! a) = KMap then h else h[a := (h ! a)\<lparr>proxied := True\<rparr>])"

fun mk_proxy :: "nat \<Rightarrow> heap \<Rightarrow> jsval \<Rightarrow> (heap \<times> jsval) option"
and mk_children :: "nat \<Rightarrow> heap \<Rightarrow> nat \<Rightarrow> string list \<Rightarrow> heap option" where
  "mk_proxy 0 h v = None"
| "mk_proxy (Suc n) h v =
     (case v of
        JRef (Prox a) \<Rightarrow> Some (h, v)
      | JRef (Raw a) \<Rightarrow>
          (case obj_at h a of
             None \<Rightarrow> Some (h, v)
           | Some ob \<Rightarrow>
               if observer ob \<noteq> None then Some (h, v)
               else if proxied ob then Some (h, JRef (Prox a))
               else if \<not> extensible ob then Some (h, v)
               else if system_obj ob then Some (h, v)
               else (case mk_children n (mark_observed h a) a (own_string_keys ob) of
                       None \<Rightarrow> None
                     | Some h' \<Rightarrow> Some (mark_proxied h' a, JRef (Prox a))))
      | _ \<Rightarrow> Some (h, v))"
| "mk_children n h a [] = Some h"
| "mk_children n h a (k # ks) =
     (case obj_at h a of
        None \<Rightarrow> Some h
      | Some ob \<Rightarrow>
          (case map_of (props ob) k of
             Some (PData v) \<Rightarrow>
               if typeof_object v then
                 (case mk_proxy n h v of
                    None \<Rightarrow> None
                  | Some (h1, v1) \<Rightarrow> mk_children n (write_prop h1 a k v1) a ks)
               else mk_children n h a ks
           | _ \<Rightarrow> mk_children n h a ks))"

definition unobserved :: "heap \<Rightarrow> nat" where
  "unobserved h = length (filter (\<lambda>ob. observer ob = None) h)"

definition mkProxy :: "heap \<Rightarrow> jsval \<Rightarrow> (heap \<times> jsval) option" where
  "mkProxy h v = mk_proxy (Suc (unobserved h)) h v"

subsection \<open>Frame facts, fuel, and the invariant\<close>

named_theorems heap_simps "frame facts of the heap operations"

lemma length_write_prop [heap_simps]: "length (write_prop h a k v) = length h"
  by (simp add: write_prop_def split: option.splits)

lemma unobserved_write_prop [heap_simps]: "unobserved (write_prop h a k v) = unobserved h"
  by (auto simp: write_prop_def obj_at_def unobserved_def length_filter_update_same)

lemma length_mark_proxied [heap_simps]: "length (mark_proxied h a) = length h"
  by (simp add: mark_proxied_def)

lemma unobserved_mark_proxied [heap_simps]: "unobserved (mark_proxied h a) = unobserved h"
  by (simp add: mark_proxied_def unobserved_def length_filter_update_same)

lemma length_mark_observed [heap_simps]: "length (mark_observed h a) = length h"
  by (simp add: mark_observed_def)

lemma unobserved_mark_observed:
  "obj_at h a = Some ob \<Longrightarrow> observer ob = None \<Longrightarrow>
   Suc (unobserved (mark_observed h a)) = unobserved h"
  unfolding unobserved_def mark_observed_def obj_at_def
  by (rule length_filter_update_drop) (auto split: if_splits)

lemma mk_proxy_frame:
  shows "mk_proxy n h v = Some (h', v') \<Longrightarrow> length h' = length h \<and> unobserved h' \<le> unobserved h"
    and "mk_children n h a ks = Some h' \<Longrightarrow> length h' = length h \<and> unobserved h' \<le> unobserved h"
proof (induction n h v and n h a ks arbitrary: h' v' and h' rule: mk_proxy_mk_children.induct)
  case (2 n h v)
  then show ?case
    by (fastforce simp: heap_simps dest: unobserved_mark_observed
        split: jsval.splits ref.splits option.splits if_splits)
next
  case (4 n h a k ks)
  then show ?case
    by (fastforce simp: heap_simps split: option.splits pval.splits if_splits prod.splits)
qed auto

lemma mk_proxy_enough:
  shows "unobserved h < n \<Longrightarrow> mk_proxy n h v \<noteq> None"
    and "unobserved h < n \<Longrightarrow> mk_children n h a ks \<noteq> None"
proof (induction n h v and n h a ks rule: mk_proxy_mk_children.induct)
  case (2 n h v)
  show ?case
  proof (cases "\<exists>a ob. v = JRef (Raw a) \<and> obj_at h a = Some ob \<and> observer ob = None")
    case True
    then obtain a ob where v: "v = JRef (Raw a)" and ob: "obj_at h a = Some ob"
      and un: "observer ob = None" by blast
    show ?thesis
    proof (cases "\<not> proxied ob \<and> extensible ob \<and> \<not> system_obj ob")
      case True
      have "unobserved (mark_observed h a) < n"
        using unobserved_mark_observed [OF ob un] "2.prems" by simp
      then have "mk_children n (mark_observed h a) a (own_string_keys ob) \<noteq> None"
        using "2.IH" v ob un True by simp
      then show ?thesis using v ob un True by (auto split: option.splits)
    next
      case False
      then show ?thesis using v ob un by auto
    qed
  next
    case False
    then show ?thesis by (auto split: jsval.splits ref.splits option.splits)
  qed
next
  case (4 n h a k ks)
  show ?case
  proof (cases "obj_at h a")
    case (Some ob)
    show ?thesis
    proof (cases "\<exists>v. map_of (props ob) k = Some (PData v) \<and> typeof_object v")
      case True
      then obtain v where pv: "map_of (props ob) k = Some (PData v)" and tv: "typeof_object v"
        by blast
      have "mk_proxy n h v \<noteq> None" using "4.IH" Some pv tv "4.prems" by blast
      then obtain h1 v1 where r: "mk_proxy n h v = Some (h1, v1)" by fastforce
      have "unobserved (write_prop h1 a k v1) < n"
        using mk_proxy_frame(1) [OF r] "4.prems" by (simp add: heap_simps)
      then have "mk_children n (write_prop h1 a k v1) a ks \<noteq> None"
        using "4.IH" Some pv tv r by blast
      then show ?thesis using Some pv tv r by simp
    next
      case False
      then show ?thesis using "4.IH" "4.prems" Some
        by (auto split: option.splits pval.splits)
    qed
  qed simp
qed auto

text \<open>
  C15 (the wrapper terminates): with fuel one more than the number of objects not yet
  observed, the wrapper always returns, on every heap and value, cyclic object graphs
  included, because each nested wrap marks one more object observed first.
\<close>

theorem mkProxy_total: "\<exists>r. mkProxy h v = Some r"
  using mk_proxy_enough(1) [of h "Suc (unobserved h)" v] by (auto simp: mkProxy_def)

definition heap_inv :: "heap \<Rightarrow> bool" where
  "heap_inv h \<longleftrightarrow> (\<forall>ob \<in> set h. proxied ob \<longrightarrow> observer ob \<noteq> None)"

lemma observer_write_prop [heap_simps]:
  "i < length h \<Longrightarrow> observer (write_prop h a k v ! i) = observer (h ! i)"
  by (auto simp: write_prop_def obj_at_def nth_list_update split: option.splits)

lemma observer_update_proxied [heap_simps]:
  "observer (h[a := (h ! a)\<lparr>proxied := True\<rparr>] ! i) = observer (h ! i)"
  by (cases "a < length h") (auto simp: nth_list_update list_update_beyond)

lemma observer_mark_proxied [heap_simps]:
  "observer (mark_proxied h a ! i) = observer (h ! i)"
  by (simp add: mark_proxied_def observer_update_proxied)

lemma observer_mark_observed:
  "i < length h \<Longrightarrow> observer (mark_observed h a ! i) = (if i = a then Some [] else observer (h ! i))"
  by (simp add: mark_observed_def nth_list_update)

lemma mk_proxy_observed_mono:
  shows "mk_proxy n h v = Some (h', v') \<Longrightarrow> i < length h \<Longrightarrow> observer (h ! i) \<noteq> None \<Longrightarrow>
           observer (h' ! i) \<noteq> None"
    and "mk_children n h a ks = Some h' \<Longrightarrow> i < length h \<Longrightarrow> observer (h ! i) \<noteq> None \<Longrightarrow>
           observer (h' ! i) \<noteq> None"
proof (induction n h v and n h a ks arbitrary: h' v' and h' rule: mk_proxy_mk_children.induct)
  case (2 n h v)
  then show ?case
    by (fastforce simp: heap_simps observer_mark_observed obj_at_def
        split: jsval.splits ref.splits option.splits if_splits)
next
  case (4 n h a k ks)
  then show ?case
    by (fastforce simp: heap_simps dest: mk_proxy_frame(1)
        split: option.splits pval.splits if_splits prod.splits)
qed auto

lemma heap_inv_update:
  "heap_inv h \<Longrightarrow> (proxied x \<longrightarrow> observer x \<noteq> None) \<Longrightarrow> heap_inv (h[i := x])"
  unfolding heap_inv_def using set_update_subset_insert by fastforce

lemma heap_inv_write_prop [heap_simps]:
  assumes "heap_inv h" shows "heap_inv (write_prop h a k v)"
proof (cases "a < length h")
  case True
  have "proxied (h ! a) \<longrightarrow> observer (h ! a) \<noteq> None" using assms True by (simp add: heap_inv_def)
  with assms True show ?thesis by (simp add: write_prop_def obj_at_def heap_inv_update)
qed (simp add: write_prop_def obj_at_def assms)

lemma heap_inv_mark_observed: "heap_inv h \<Longrightarrow> heap_inv (mark_observed h a)"
  by (simp add: mark_observed_def heap_inv_update)

lemma heap_inv_mark_proxied:
  "heap_inv h \<Longrightarrow> observer (h ! a) \<noteq> None \<Longrightarrow> heap_inv (mark_proxied h a)"
  by (simp add: mark_proxied_def heap_inv_update)

lemma mk_proxy_heap_inv:
  shows "mk_proxy n h v = Some (h', v') \<Longrightarrow> heap_inv h \<Longrightarrow> heap_inv h'"
    and "mk_children n h a ks = Some h' \<Longrightarrow> heap_inv h \<Longrightarrow> heap_inv h'"
proof (induction n h v and n h a ks arbitrary: h' v' and h' rule: mk_proxy_mk_children.induct)
  case (2 n h v)
  show ?case
  proof (cases "\<exists>a ob h''. v = JRef (Raw a) \<and> obj_at h a = Some ob \<and> observer ob = None
      \<and> \<not> proxied ob \<and> extensible ob \<and> \<not> system_obj ob
      \<and> mk_children n (mark_observed h a) a (own_string_keys ob) = Some h''")
    case True
    then obtain a ob h'' where v: "v = JRef (Raw a)" and ob: "obj_at h a = Some ob"
      and g: "observer ob = None" "\<not> proxied ob" "extensible ob" "\<not> system_obj ob"
      and c: "mk_children n (mark_observed h a) a (own_string_keys ob) = Some h''" by blast
    have a: "a < length h" using ob by (simp add: obj_at_def split: if_splits)
    have "heap_inv h''"
      using "2.IH" [OF v refl ob _ _ _ _ c] g "2.prems"(2) heap_inv_mark_observed by simp
    moreover have "observer (h'' ! a) \<noteq> None"
      using mk_proxy_observed_mono(2) [OF c, of a] a by (simp add: observer_mark_observed heap_simps)
    moreover have "h' = mark_proxied h'' a" using "2.prems"(1) v ob g c by simp
    ultimately show ?thesis by (simp add: heap_inv_mark_proxied)
  next
    case False
    with "2.prems" show ?thesis
      by (auto split: jsval.splits ref.splits option.splits if_splits)
  qed
next
  case (4 n h a k ks)
  then show ?case
    by (fastforce simp: heap_simps split: option.splits pval.splits if_splits prod.splits)
qed auto

lemma mk_proxy_wrapped_observed:
  "mk_proxy n h (JRef (Raw a)) = Some (h1, JRef (Prox a)) \<Longrightarrow> heap_inv h \<Longrightarrow>
     a < length h1 \<and> observer (h1 ! a) \<noteq> None"
proof (cases n)
  case (Suc m)
  assume r: "mk_proxy n h (JRef (Raw a)) = Some (h1, JRef (Prox a))" and inv: "heap_inv h"
  obtain ob where ob: "obj_at h a = Some ob" using r Suc by (auto split: option.splits)
  have a: "a < length h" using ob by (simp add: obj_at_def split: if_splits)
  have g: "observer ob = None" "\<not> proxied ob" "extensible ob" "\<not> system_obj ob"
    using r Suc ob inv a by (auto simp: heap_inv_def obj_at_def split: if_splits)
  then obtain h'' where c: "mk_children m (mark_observed h a) a (own_string_keys ob) = Some h''"
    and h1: "h1 = mark_proxied h'' a" using r Suc ob by (auto split: option.splits)
  have "length h'' = length h" using mk_proxy_frame(2) [OF c] by (simp add: heap_simps)
  moreover have "observer (h'' ! a) \<noteq> None"
    using mk_proxy_observed_mono(2) [OF c, of a] a by (simp add: observer_mark_observed heap_simps)
  ultimately show ?thesis using a h1 by (simp add: heap_simps observer_mark_proxied)
qed simp

text \<open>
  C9 (wrapping twice does not give the proxy back): \<open>_mkProxy\<close> tests
  \<open>SymbolObserver\<close> before \<open>SymbolProxyedObj\<close>, so wrapping again the raw object of
  a proxy it has just built returns the raw object, not the memoised proxy.
\<close>

theorem mkProxy_rewrap_raw:
  assumes "heap_inv h" and "mkProxy h (JRef (Raw a)) = Some (h1, JRef (Prox a))"
  shows "mkProxy h1 (JRef (Raw a)) = Some (h1, JRef (Raw a))"
proof -
  have "a < length h1 \<and> observer (h1 ! a) \<noteq> None"
    using mk_proxy_wrapped_observed assms unfolding mkProxy_def by blast
  then show ?thesis by (auto simp: mkProxy_def obj_at_def)
qed

lemma mk_proxy_observer_same:
  shows "mk_proxy n h v = Some (h', v') \<Longrightarrow> i < length h \<Longrightarrow> observer (h ! i) \<noteq> None \<Longrightarrow>
           observer (h' ! i) = observer (h ! i)"
    and "mk_children n h a ks = Some h' \<Longrightarrow> i < length h \<Longrightarrow> observer (h ! i) \<noteq> None \<Longrightarrow>
           observer (h' ! i) = observer (h ! i)"
proof (induction n h v and n h a ks arbitrary: h' v' and h' rule: mk_proxy_mk_children.induct)
  case (2 n h v)
  then show ?case
    by (fastforce simp: heap_simps observer_mark_observed obj_at_def
        split: jsval.splits ref.splits option.splits if_splits)
next
  case (4 n h a k ks)
  then show ?case
    by (fastforce simp: heap_simps dest: mk_proxy_frame(1)
        split: option.splits pval.splits if_splits prod.splits)
qed auto

text \<open>
  C21 (wrapper invariant): every object marked as proxied carries a dependency table,
  and the wrapper keeps it so.
\<close>

theorem mkProxy_heap_inv:
  "heap_inv h \<Longrightarrow> mkProxy h v = Some (h', v') \<Longrightarrow> heap_inv h'"
  unfolding mkProxy_def using mk_proxy_heap_inv(1) by blast

end
