(* ===== verification/Observer.thy ===== *)
theory Observer
  imports Heap
begin

text \<open>
  The tracking core of class \<open>Observer\<close> (\<open>Observer.ts\<close> lines 238--302 and 362--424):
  the single global tracking slot \<open>_depsTracker\<close>, the quarantine set
  \<open>_badFunctionsSet\<close>, the traps of the interception proxy (\<open>get\<close>, \<open>set\<close>,
  \<open>deleteProperty\<close>), the accessor pair \<open>_watchProperty\<close> installs, and \<open>trackCall\<close>.
  The engine's whole state is the record \<open>obs_state\<close>: the heap of objects (each
  with its dependency index), the slot, the quarantine set, the global
  \<open>_dependsTracker\<close> with the pending set, the consumer registry and the readiness
  flag set by the \<open>wcex-loaded\<close> event.

  A binder is modelled by what the engine sees of one run of it: the sequence of
  property reads, writes and deletes it performs through raw objects or proxies, the
  nested \<open>trackCall\<close>s it makes, and whether it returns a value or throws
  (\<open>access\<close>, \<open>outcome\<close>). Reads through a raw object are not trapped.
\<close>

record obs_state =
  heap :: heap
  depsTracker :: "(elem_id \<times> binder_key) option"
  badFunctionsSet :: "fn_id jsset"
  dependsTracker :: depends_tracker
  wcRegister :: el_register
  wcex_ready :: bool
  onSet_objs :: "nat list"
  onSet_calls :: "(nat \<times> string \<times> jsval) list"

definition obj_deps :: "obs_state \<Rightarrow> nat \<Rightarrow> depends option" where
  "obj_deps s a = (case obj_at (heap s) a of None \<Rightarrow> None | Some ob \<Rightarrow> observer ob)"

definition set_obj_deps :: "nat \<Rightarrow> depends \<Rightarrow> obs_state \<Rightarrow> obs_state" where
  "set_obj_deps a D s = s\<lparr>heap := (heap s)[a := (heap s ! a)\<lparr>observer := Some D\<rparr>]\<rparr>"

text \<open>\<open>self._objDependes(obj)._noticeChange(prop)\<close>.\<close>

definition notice_obj :: "nat \<Rightarrow> prop_key \<Rightarrow> obs_state \<Rightarrow> obs_state" where
  "notice_obj a p s =
     (case obj_deps s a of
        None \<Rightarrow> s
      | Some D \<Rightarrow>
          (case noticeChange (wcRegister s) p D (dependsTracker s) of
             (D', T') \<Rightarrow> (set_obj_deps a D' s)\<lparr>dependsTracker := T'\<rparr>))"

text \<open>\<open>_autoTrackDeps(obj, prop)\<close>: with an active slot, record the property and the
  structural key.\<close>

definition autoTrackDeps :: "nat \<Rightarrow> string option \<Rightarrow> obs_state \<Rightarrow> obs_state" where
  "autoTrackDeps a prop s =
     (case depsTracker s of
        None \<Rightarrow> s
      | Some t \<Rightarrow>
          (case obj_deps s a of
             None \<Rightarrow> s
           | Some D \<Rightarrow>
               (let D1 = (case prop of None \<Rightarrow> D | Some p \<Rightarrow> addDeps (PStr p) t D)
                in set_obj_deps a (addDeps PSelf t D1) s)))"

definition wrap_value :: "heap \<Rightarrow> jsval \<Rightarrow> heap \<times> jsval" where
  "wrap_value h v = (case mkProxy h v of Some r \<Rightarrow> r | None \<Rightarrow> (h, v))"

subsection \<open>The proxy traps\<close>

definition set_mutators :: "string list" where
  "set_mutators = [''add'', ''delete'', ''clear'', ''set'']"

definition array_mutators :: "string list" where
  "array_mutators = [''push'', ''pop'', ''shift'', ''unshift'', ''splice'', ''sort'', ''reverse'']"

definition proxy_get :: "nat \<Rightarrow> string \<Rightarrow> obs_state \<Rightarrow> jsval \<times> obs_state" where
  "proxy_get a p s =
     (case obj_at (heap s) a of
        None \<Rightarrow> (JUndef, s)
      | Some ob \<Rightarrow>
          (let s1 = autoTrackDeps a (Some p) s;
               s2 = (if (kind ob = KSet \<or> kind ob = KMap) \<and> p \<in> set set_mutators
                     then notice_obj a PSelf s1 else s1);
               s3 = (if kind ob = KArray \<and> p \<in> set array_mutators
                     then notice_obj a (PStr ''length'') (notice_obj a PSelf s2) else s2);
               v = prop_value (heap s3 ! a) p
           in (case v of
                 JFun f \<Rightarrow> (if kind ob \<noteq> KArray then JBound f a else v)
               | _ \<Rightarrow> v, s3)))"

definition proxy_set :: "nat \<Rightarrow> string \<Rightarrow> jsval \<Rightarrow> obs_state \<Rightarrow> obs_state" where
  "proxy_set a p v s =
     (case obj_at (heap s) a of
        None \<Rightarrow> s
      | Some ob \<Rightarrow>
          (let newFlag = (p \<notin> set (jm_keys (props ob)));
               old = prop_value ob p;
               s1 = (if \<not> typeof_object old \<or> old \<noteq> v
                     then (case wrap_value (heap s) v of
                             (h', v') \<Rightarrow> notice_obj a (PStr p) (s\<lparr>heap := write_prop h' a p v'\<rparr>))
                     else s)
           in if kind ob = KArray \<or> newFlag then notice_obj a PSelf s1 else s1))"

definition delete_prop :: "heap \<Rightarrow> nat \<Rightarrow> string \<Rightarrow> heap" where
  "delete_prop h a p =
     (case obj_at h a of
        None \<Rightarrow> h
      | Some ob \<Rightarrow> h[a := ob\<lparr>props := jm_delete p (props ob)\<rparr>])"

definition remove_obj_prop_deps :: "nat \<Rightarrow> string \<Rightarrow> obs_state \<Rightarrow> obs_state" where
  "remove_obj_prop_deps a p s =
     (case obj_deps s a of None \<Rightarrow> s | Some D \<Rightarrow> set_obj_deps a (removePropDeps (PStr p) D) s)"

definition proxy_delete :: "nat \<Rightarrow> string \<Rightarrow> obs_state \<Rightarrow> obs_state" where
  "proxy_delete a p s =
     (let s1 = autoTrackDeps a (Some p) s;
          s2 = notice_obj a (PStr p) s1;
          s3 = notice_obj a PSelf s2;
          s4 = remove_obj_prop_deps a p s3
      in s4\<lparr>heap := delete_prop (heap s4) a p\<rparr>)"

subsection \<open>Raw access and the accessors of \<open>_watchProperty\<close>\<close>

definition watch_get :: "nat \<Rightarrow> string \<Rightarrow> obs_state \<Rightarrow> obs_state" where
  "watch_get a p s = autoTrackDeps a (Some p) s"

text \<open>The accessor's setter (lines 475--489): the value lives in the closure.\<close>

definition watch_set :: "bool \<Rightarrow> nat \<Rightarrow> string \<Rightarrow> jsval \<Rightarrow> jsval \<Rightarrow> obs_state \<Rightarrow> obs_state" where
  "watch_set hasOnSet a p cur v s =
     (if \<not> typeof_object cur \<or> cur \<noteq> v then
        (case wrap_value (heap s) v of
           (h', v') \<Rightarrow>
             (let h'' = (case obj_at h' a of
                           None \<Rightarrow> h'
                         | Some ob \<Rightarrow> h'[a := ob\<lparr>props := jm_set p (PWatch v') (props ob)\<rparr>]);
                  s1 = s\<lparr>heap := h'',
                         onSet_calls := onSet_calls s @ (if hasOnSet then [(a, p, v')] else [])\<rparr>
              in notice_obj a (PStr p) s1))
      else s)"

definition raw_get :: "nat \<Rightarrow> string \<Rightarrow> obs_state \<Rightarrow> obs_state" where
  "raw_get a p s =
     (case obj_at (heap s) a of
        None \<Rightarrow> s
      | Some ob \<Rightarrow> (case map_of (props ob) p of Some (PWatch _) \<Rightarrow> watch_get a p s | _ \<Rightarrow> s))"

definition raw_set :: "nat \<Rightarrow> string \<Rightarrow> jsval \<Rightarrow> obs_state \<Rightarrow> obs_state" where
  "raw_set a p v s =
     (case obj_at (heap s) a of
        None \<Rightarrow> s
      | Some ob \<Rightarrow>
          (case map_of (props ob) p of
             Some (PWatch cur) \<Rightarrow> watch_set (a \<in> set (onSet_objs s)) a p cur v s
           | _ \<Rightarrow> s\<lparr>heap := write_prop (heap s) a p v\<rparr>))"

definition raw_delete :: "nat \<Rightarrow> string \<Rightarrow> obs_state \<Rightarrow> obs_state" where
  "raw_delete a p s = s\<lparr>heap := delete_prop (heap s) a p\<rparr>"

subsection \<open>Binders and \<open>trackCall\<close>\<close>

datatype outcome = Returns jsval | Throws

datatype access =
    AGet ref string
  | ASet ref string jsval
  | ADelete ref string
  | ATrack elem_id binder_key fn_id "access list" outcome

text \<open>
  Lines 261--268: a result that is a proxied array, set or map has its
  \<open>length\<close> or \<open>size\<close> read through the proxy, so that it is tracked.
\<close>

definition touch_result :: "jsval \<Rightarrow> obs_state \<Rightarrow> obs_state" where
  "touch_result v s =
     (case v of
        JRef (Prox a) \<Rightarrow>
          (case obj_at (heap s) a of
             None \<Rightarrow> s
           | Some ob \<Rightarrow>
               if kind ob = KArray then snd (proxy_get a ''length'' s)
               else if kind ob = KSet \<or> kind ob = KMap then snd (proxy_get a ''size'' s)
               else s)
      | _ \<Rightarrow> s)"

text \<open>
  \<open>trackCall(wcId, binderKey, trackerfunc)\<close> (lines 250--287), given the effect of
  running the function's body. The slot is set before the quarantine test and cleared
  on every path; a function that throws has its binding dropped from its component and
  is quarantined; the result is \<open>undefined\<close> (\<open>JUndef\<close>) unless the body returned.
\<close>

definition trackCall_with ::
  "(obs_state \<Rightarrow> obs_state) \<Rightarrow> elem_id \<Rightarrow> binder_key \<Rightarrow> fn_id \<Rightarrow> outcome \<Rightarrow> obs_state
   \<Rightarrow> jsval \<times> obs_state" where
  "trackCall_with body wcId key f out s =
     (let s1 = s\<lparr>depsTracker := Some (wcId, key)\<rparr>
      in if f \<in> set (badFunctionsSet s1) then (JUndef, s1\<lparr>depsTracker := None\<rparr>)
         else
           (let s2 = body s1
            in case out of
                 Throws \<Rightarrow>
                   (JUndef, s2\<lparr>wcRegister := drop_binding (wcRegister s2) wcId key,
                              badFunctionsSet := js_add f (badFunctionsSet s2),
                              depsTracker := None\<rparr>)
               | Returns v \<Rightarrow> (v, (touch_result v s2)\<lparr>depsTracker := None\<rparr>)))"

fun run_access :: "access \<Rightarrow> obs_state \<Rightarrow> obs_state"
and run_accesses :: "access list \<Rightarrow> obs_state \<Rightarrow> obs_state" where
  "run_access (AGet r p) s = (case r of Prox a \<Rightarrow> snd (proxy_get a p s) | Raw a \<Rightarrow> raw_get a p s)"
| "run_access (ASet r p v) s = (case r of Prox a \<Rightarrow> proxy_set a p v s | Raw a \<Rightarrow> raw_set a p v s)"
| "run_access (ADelete r p) s =
     (case r of Prox a \<Rightarrow> proxy_delete a p s | Raw a \<Rightarrow> raw_delete a p s)"
| "run_access (ATrack w k f body out) s =
     snd (trackCall_with (\<lambda>s'. run_accesses body s') w k f out s)"
| "run_accesses [] s = s"
| "run_accesses (x # xs) s = run_accesses xs (run_access x s)"

definition trackCall ::
  "elem_id \<Rightarrow> binder_key \<Rightarrow> fn_id \<Rightarrow> access list \<Rightarrow> outcome \<Rightarrow> obs_state \<Rightarrow> jsval \<times> obs_state" where
  "trackCall wcId key f body out s = trackCall_with (run_accesses body) wcId key f out s"

subsection \<open>Frame facts and the pending set\<close>

named_theorems obs_simps "frame facts of the engine's operations"

lemma pending_notice_obj [obs_simps]:
  "callerSet (dependsTracker (notice_obj a p s)) =
     (case obj_deps s a of
        None \<Rightarrow> callerSet (dependsTracker s)
      | Some D \<Rightarrow> fold js_add (case map_of D p of None \<Rightarrow> [] | Some m \<Rightarrow> notice_order (wcRegister s) m)
                   (callerSet (dependsTracker s)))"
  by (auto simp: notice_obj_def callerSet_noticeChange [symmetric] split: option.splits prod.splits)

lemma register_notice_obj [obs_simps]: "wcRegister (notice_obj a p s) = wcRegister s"
  by (simp add: notice_obj_def set_obj_deps_def split: option.splits prod.splits)

lemma tracker_notice_obj [obs_simps]: "depsTracker (notice_obj a p s) = depsTracker s"
  by (simp add: notice_obj_def set_obj_deps_def split: option.splits prod.splits)

lemma bad_notice_obj [obs_simps]: "badFunctionsSet (notice_obj a p s) = badFunctionsSet s"
  by (simp add: notice_obj_def set_obj_deps_def split: option.splits prod.splits)

lemma length_notice_obj [obs_simps]: "length (heap (notice_obj a p s)) = length (heap s)"
  by (simp add: notice_obj_def set_obj_deps_def split: option.splits prod.splits)

lemma pending_autoTrackDeps [obs_simps]:
  "dependsTracker (autoTrackDeps a p s) = dependsTracker s"
  by (simp add: autoTrackDeps_def set_obj_deps_def Let_def split: option.splits)

lemma register_autoTrackDeps [obs_simps]: "wcRegister (autoTrackDeps a p s) = wcRegister s"
  by (simp add: autoTrackDeps_def set_obj_deps_def Let_def split: option.splits)

lemma tracker_autoTrackDeps [obs_simps]: "depsTracker (autoTrackDeps a p s) = depsTracker s"
  by (simp add: autoTrackDeps_def set_obj_deps_def Let_def split: option.splits)

lemma notice_obj_schedules:
  assumes "obj_deps s a = Some D" and "has_edge D p w k" and "f \<in> set (resolved_fns (wcRegister s) w k)"
  shows "f \<in> set (callerSet (dependsTracker (notice_obj a p s)))"
proof -
  obtain m ks where m: "map_of D p = Some m" and ks: "map_of m w = Some ks" and k: "k \<in> set ks"
    using assms(2) by (auto simp: has_edge_def split: option.splits)
  have "(w, ks) \<in> set m" using ks by (rule map_of_SomeD)
  then have "f \<in> set (notice_order (wcRegister s) m)"
    using k assms(3) by (force simp: notice_order_def)
  then show ?thesis using assms(1) m by (simp add: pending_notice_obj)
qed

lemma notice_obj_pending_grows:
  "\<exists>zs. callerSet (dependsTracker (notice_obj a p s)) = callerSet (dependsTracker s) @ zs"
  by (auto simp: pending_notice_obj fold_js_add_prefix split: option.splits)

definition pending_grows :: "obs_state \<Rightarrow> obs_state \<Rightarrow> bool" where
  "pending_grows s s' \<longleftrightarrow>
     (\<exists>zs. callerSet (dependsTracker s') = callerSet (dependsTracker s) @ zs)
     \<and> (distinct (callerSet (dependsTracker s)) \<longrightarrow> distinct (callerSet (dependsTracker s')))"

lemma pending_grows_refl: "dependsTracker s' = dependsTracker s \<Longrightarrow> pending_grows s s'"
  by (simp add: pending_grows_def)

lemma pending_grows_trans: "pending_grows s s' \<Longrightarrow> pending_grows s' s'' \<Longrightarrow> pending_grows s s''"
  by (auto simp: pending_grows_def)

lemma pending_grows_notice_obj: "pending_grows s (notice_obj a p s)"
  by (auto simp: pending_grows_def pending_notice_obj fold_js_add_prefix split: option.splits)

lemma pending_grows_update:
  "pending_grows s s' \<Longrightarrow> dependsTracker s'' = dependsTracker s' \<Longrightarrow> pending_grows s s''"
  by (simp add: pending_grows_def)

lemma pending_grows_upd [simp]:
  "pending_grows s (s'\<lparr>depsTracker := t\<rparr>) = pending_grows s s'"
  "pending_grows s (s'\<lparr>wcRegister := R\<rparr>) = pending_grows s s'"
  "pending_grows s (s'\<lparr>badFunctionsSet := B\<rparr>) = pending_grows s s'"
  "pending_grows s (s'\<lparr>heap := h\<rparr>) = pending_grows s s'"
  "pending_grows s (s'\<lparr>onSet_calls := c\<rparr>) = pending_grows s s'"
  by (simp_all add: pending_grows_def)

lemma pending_grows_upd_left [simp]:
  "pending_grows (s\<lparr>depsTracker := t\<rparr>) s' = pending_grows s s'"
  "pending_grows (s\<lparr>heap := h\<rparr>) s' = pending_grows s s'"
  "pending_grows (s\<lparr>heap := h, onSet_calls := c\<rparr>) s' = pending_grows s s'"
  by (simp_all add: pending_grows_def)

lemmas pending_grows_intros =
  pending_grows_refl pending_grows_trans pending_grows_notice_obj pending_grows_update

lemma pending_grows_autoTrackDeps: "pending_grows s (autoTrackDeps a p s)"
  by (simp add: pending_grows_refl pending_autoTrackDeps)

lemma pending_grows_notice_after: "pending_grows s s1 \<Longrightarrow> pending_grows s (notice_obj a p s1)"
  using pending_grows_notice_obj pending_grows_trans by blast

lemma pending_grows_notice_upd:
  "dependsTracker s1 = dependsTracker s \<Longrightarrow> pending_grows s (notice_obj a p s1)"
  by (simp add: pending_grows_notice_after pending_grows_refl)

lemma pending_grows_proxy_get: "pending_grows s (snd (proxy_get a p s))"
  by (auto simp: proxy_get_def Let_def pending_grows_autoTrackDeps pending_grows_notice_after
      intro: pending_grows_refl split: option.splits jsval.splits)

lemma pending_grows_proxy_set: "pending_grows s (proxy_set a p v s)"
  by (auto simp: proxy_set_def Let_def pending_grows_notice_after pending_grows_notice_upd
      pending_grows_refl split: option.splits prod.splits)

lemma pending_grows_remove_obj_prop_deps: "dependsTracker (remove_obj_prop_deps a p s) = dependsTracker s"
  by (simp add: remove_obj_prop_deps_def set_obj_deps_def split: option.splits)

lemma pending_grows_proxy_delete: "pending_grows s (proxy_delete a p s)"
proof -
  let ?s3 = "notice_obj a PSelf (notice_obj a (PStr p) (autoTrackDeps a (Some p) s))"
  have "pending_grows s ?s3"
    by (intro pending_grows_notice_after pending_grows_autoTrackDeps)
  then show ?thesis
    by (simp add: proxy_delete_def Let_def pending_grows_update pending_grows_remove_obj_prop_deps)
qed

lemma pending_grows_watch_set: "pending_grows s (watch_set b a p cur v s)"
  by (auto simp: watch_set_def Let_def pending_grows_notice_upd pending_grows_refl
      split: prod.splits)

lemma pending_grows_raw_get: "pending_grows s (raw_get a p s)"
  by (auto simp: raw_get_def watch_get_def pending_grows_autoTrackDeps intro: pending_grows_refl
      split: option.splits pval.splits)

lemma pending_grows_raw_set: "pending_grows s (raw_set a p v s)"
  by (auto simp: raw_set_def pending_grows_watch_set intro: pending_grows_refl
      split: option.splits pval.splits)

lemma pending_grows_raw_delete: "pending_grows s (raw_delete a p s)"
  by (simp add: raw_delete_def pending_grows_refl)

lemma pending_grows_touch_result: "pending_grows s (touch_result v s)"
  by (auto simp: touch_result_def pending_grows_proxy_get intro: pending_grows_refl
      split: jsval.splits ref.splits option.splits)

lemma pending_grows_trackCall_with:
  assumes "\<And>s'. pending_grows s' (body s')"
  shows "pending_grows s (snd (trackCall_with body w k f out s))"
proof -
  let ?s1 = "s\<lparr>depsTracker := Some (w, k)\<rparr>"
  have "pending_grows s (body ?s1)"
    using assms [of ?s1] by (simp add: pending_grows_def)
  moreover have "pending_grows s (touch_result v (body ?s1))" for v
    using calculation pending_grows_touch_result pending_grows_trans by blast
  ultimately show ?thesis
    by (auto simp: trackCall_with_def Let_def intro: pending_grows_refl split: outcome.splits)
qed

lemma pending_grows_run:
  shows "pending_grows s (run_access x s)"
    and "pending_grows s (run_accesses xs s)"
proof (induction x s and xs s rule: run_access_run_accesses.induct)
  case (1 r p s)
  then show ?case by (cases r) (simp_all add: pending_grows_proxy_get pending_grows_raw_get)
next
  case (2 r p v s)
  then show ?case by (cases r) (simp_all add: pending_grows_proxy_set pending_grows_raw_set)
next
  case (3 r p s)
  then show ?case by (cases r) (simp_all add: pending_grows_proxy_delete pending_grows_raw_delete)
next
  case (4 w k f body out s)
  then show ?case by (simp add: pending_grows_trackCall_with)
next
  case (5 s)
  then show ?case by (simp add: pending_grows_refl)
next
  case (6 x xs s)
  then show ?case using pending_grows_trans by fastforce
qed

lemma wrap_value_observer:
  "wrap_value h v = (h', v') \<Longrightarrow> i < length h \<Longrightarrow> observer (h ! i) \<noteq> None \<Longrightarrow>
     length h' = length h \<and> observer (h' ! i) = observer (h ! i)"
  unfolding wrap_value_def mkProxy_def
  by (auto simp del: mk_proxy.simps split: option.splits
      dest: mk_proxy_frame(1) mk_proxy_observer_same(1))

lemma obj_deps_observer: "obj_deps s a = Some D \<longleftrightarrow> a < length (heap s) \<and> observer (heap s ! a) = Some D"
  by (simp add: obj_deps_def obj_at_def)

lemma proxy_set_schedules:
  assumes ob: "obj_at (heap s) a = Some ob" and D: "observer ob = Some D"
    and e: "has_edge D (PStr p) w k" and f: "f \<in> set (resolved_fns (wcRegister s) w k)"
    and ch: "\<not> typeof_object (prop_value ob p) \<or> prop_value ob p \<noteq> v"
  shows "f \<in> set (callerSet (dependsTracker (proxy_set a p v s)))"
proof -
  obtain h' v' where wv: "wrap_value (heap s) v = (h', v')" by fastforce
  let ?s' = "s\<lparr>heap := write_prop h' a p v'\<rparr>"
  have a: "a < length (heap s)" and o: "observer (heap s ! a) = Some D"
    using ob D by (auto simp: obj_at_def split: if_splits)
  then have "obj_deps ?s' a = Some D"
    using wrap_value_observer [OF wv a] by (simp add: obj_deps_observer heap_simps)
  then have "f \<in> set (callerSet (dependsTracker (notice_obj a (PStr p) ?s')))"
    using notice_obj_schedules e f by simp
  moreover have "pending_grows (notice_obj a (PStr p) ?s') (notice_obj a PSelf (notice_obj a (PStr p) ?s'))"
    by (rule pending_grows_notice_obj)
  ultimately show ?thesis using ob ch wv
    by (auto simp: proxy_set_def Let_def pending_grows_def)
qed

definition shape :: "heap \<Rightarrow> (obj_kind \<times> (string, pval) jsmap) list" where
  "shape h = map (\<lambda>ob. (kind ob, props ob)) h"

lemma shape_set_obj_deps [obs_simps]: "shape (heap (set_obj_deps a D s)) = shape (heap s)"
proof (cases "a < length (heap s)")
  case True
  then have "(map (\<lambda>ob. (kind ob, props ob)) (heap s))[a := (kind (heap s ! a), props (heap s ! a))]
      = map (\<lambda>ob. (kind ob, props ob)) (heap s)"
    by (metis (no_types, lifting) list_update_id nth_map)
  then show ?thesis by (simp add: set_obj_deps_def shape_def map_update)
qed (simp add: set_obj_deps_def list_update_beyond)

lemma shape_notice_obj [obs_simps]: "shape (heap (notice_obj a p s)) = shape (heap s)"
  by (simp add: notice_obj_def shape_set_obj_deps split: option.splits prod.splits)

lemma shape_autoTrackDeps [obs_simps]: "shape (heap (autoTrackDeps a p s)) = shape (heap s)"
  by (simp add: autoTrackDeps_def Let_def shape_set_obj_deps split: option.splits)

lemma shape_proxy_get [obs_simps]: "shape (heap (snd (proxy_get a p s))) = shape (heap s)"
  by (simp add: proxy_get_def Let_def obs_simps split: option.splits jsval.splits)

lemma register_proxy_get [obs_simps]: "wcRegister (snd (proxy_get a p s)) = wcRegister s"
  by (simp add: proxy_get_def Let_def obs_simps split: option.splits jsval.splits)

lemma obj_at_shape:
  "shape h' = shape h \<Longrightarrow> obj_at h a = Some ob \<Longrightarrow>
     \<exists>ob'. obj_at h' a = Some ob' \<and> kind ob' = kind ob \<and> props ob' = props ob"
proof -
  assume sh: "shape h' = shape h" and ob: "obj_at h a = Some ob"
  have len: "length h' = length h" using sh unfolding shape_def by (metis length_map)
  have a: "a < length h" and obeq: "ob = h ! a" using ob by (auto simp: obj_at_def split: if_splits)
  have "shape h' ! a = shape h ! a" using sh by simp
  then have "kind (h' ! a) = kind ob \<and> props (h' ! a) = props ob"
    using a len obeq by (simp add: shape_def)
  then show ?thesis using a len by (simp add: obj_at_def)
qed

lemma obj_deps_autoTrackDeps:
  "depsTracker s = Some t \<Longrightarrow> obj_deps s a = Some D \<Longrightarrow>
     obj_deps (autoTrackDeps a (Some p) s) a = Some (addDeps PSelf t (addDeps (PStr p) t D))"
  by (auto simp: autoTrackDeps_def obj_deps_def obj_at_def set_obj_deps_def split: if_splits)

lemma proxy_get_records_edge:
  assumes "depsTracker s = Some (w, k)" and "obj_at (heap s) a = Some ob" and "kind ob = KPlain"
    and "observer ob = Some D"
  shows "obj_deps (snd (proxy_get a p s)) a =
           Some (addDeps PSelf (w, k) (addDeps (PStr p) (w, k) D))"
proof -
  have "obj_deps s a = Some D" using assms(2,4) by (simp add: obj_deps_def)
  then show ?thesis
    using assms obj_deps_autoTrackDeps [OF assms(1)]
    by (simp add: proxy_get_def Let_def split: jsval.splits)
qed

text \<open>
  C3 (quarantine): once a function is in \<open>_badFunctionsSet\<close>, \<open>trackCall\<close> returns
  \<open>undefined\<close> without running it and changes nothing but the tracking slot, which it
  leaves empty, whatever it held before.
\<close>

theorem trackCall_quarantined:
  "f \<in> set (badFunctionsSet s) \<Longrightarrow> trackCall w k f body out s = (JUndef, s\<lparr>depsTracker := None\<rparr>)"
  by (simp add: trackCall_def trackCall_with_def)

lemma tracker_trackCall_with: "depsTracker (snd (trackCall_with body w k f out s)) = None"
  by (simp add: trackCall_with_def Let_def split: outcome.splits)

lemma obj_deps_notice_obj:
  "obj_deps s a = Some D \<Longrightarrow>
     obj_deps (notice_obj a p s) a = Some (fst (noticeChange (wcRegister s) p D (dependsTracker s)))"
  by (simp add: notice_obj_def obj_deps_def obj_at_def set_obj_deps_def split: prod.splits if_splits)

lemma proxy_get_untracked:
  "depsTracker s = None \<Longrightarrow> obj_at (heap s) a = Some ob \<Longrightarrow> kind ob = KPlain \<Longrightarrow>
     snd (proxy_get a p s) = s"
  by (simp add: proxy_get_def autoTrackDeps_def Let_def split: jsval.splits)

subsection \<open>Properties of the tracking core\<close>

text \<open>
  Deduplication: however many reads, writes, deletes and nested evaluations a
  binder performs, a function is pending at most once, so writing a property N times
  before the next flush schedules each dependent once.
\<close>

theorem pending_no_duplicates:
  "distinct (callerSet (dependsTracker s)) \<Longrightarrow>
     count_list (callerSet (dependsTracker (run_accesses xs s))) f \<le> 1"
proof -
  assume "distinct (callerSet (dependsTracker s))"
  then have "distinct (callerSet (dependsTracker (run_accesses xs s)))"
    using pending_grows_run(2) [where xs = xs and s = s] by (simp add: pending_grows_def)
  then show ?thesis by (rule distinct_count_le_1)
qed

text \<open>
  C4 (evaluation error): when the function throws, \<open>trackCall\<close> returns
  \<open>undefined\<close>, quarantines the function, drops its binding key from its component,
  clears the slot, and any later \<open>trackCall\<close> of the same function returns
  \<open>undefined\<close>.
\<close>

theorem trackCall_throw_quarantines:
  assumes "f \<notin> set (badFunctionsSet s)"
  shows "fst (trackCall w k f body Throws s) = JUndef
    \<and> depsTracker (snd (trackCall w k f body Throws s)) = None
    \<and> f \<in> set (badFunctionsSet (snd (trackCall w k f body Throws s)))
    \<and> getEl (wcRegister (snd (trackCall w k f body Throws s))) w =
        map_option (removeBinderKey k)
          (getEl (wcRegister (run_accesses body (s\<lparr>depsTracker := Some (w, k)\<rparr>))) w)
    \<and> fst (trackCall w' k' f body' out' (snd (trackCall w k f body Throws s))) = JUndef"
  using assms by (simp add: trackCall_def trackCall_with_def Let_def getEl_drop_binding)

text \<open>
  C10 (a write of the same primitive value notifies): the set trap compares old and new
  value only when the old one is an object, so assigning a property the number or string
  it already holds still schedules every dependent.
\<close>

theorem same_primitive_write_notifies:
  assumes "obj_at (heap s) a = Some ob" and "observer ob = Some D"
    and "prop_value ob p = v" and "\<not> typeof_object v"
    and "has_edge D (PStr p) w k" and "f \<in> set (resolved_fns (wcRegister s) w k)"
  shows "f \<in> set (callerSet (dependsTracker (proxy_set a p v s)))"
  using assms proxy_set_schedules by blast

text \<open>
  A write of the same object is silent: assigning an existing property of a
  non-array the very object it already holds changes nothing at all.
\<close>

theorem same_object_write_silent:
  assumes "obj_at (heap s) a = Some ob" and "kind ob \<noteq> KArray"
    and "map_of (props ob) p = Some (PData v)" and "typeof_object v"
  shows "proxy_set a p v s = s"
proof -
  have "p \<in> set (jm_keys (props ob))" using assms(3) by (force dest: map_of_SomeD)
  then show ?thesis using assms by (simp add: proxy_set_def Let_def prop_value_def)
qed

text \<open>
  C12 (sequence mutators): merely reading a mutating method such as \<open>push\<close> from an
  array proxy notifies both the structural key and \<open>length\<close>, before and whether or
  not the method is called, so dependents of either are scheduled.
\<close>

theorem array_mutator_access_notifies:
  assumes "depsTracker s = None" and ob: "obj_at (heap s) a = Some ob" and "kind ob = KArray"
    and D: "observer ob = Some D" and "m \<in> set array_mutators"
    and e: "has_edge D PSelf w k \<or> has_edge D (PStr ''length'') w k"
    and f: "f \<in> set (resolved_fns (wcRegister s) w k)"
  shows "f \<in> set (callerSet (dependsTracker (snd (proxy_get a m s))))"
proof -
  have dep: "obj_deps s a = Some D" using ob D by (simp add: obj_deps_def)
  let ?s1 = "notice_obj a PSelf s"
  have eq: "snd (proxy_get a m s) = notice_obj a (PStr ''length'') ?s1"
    using assms by (simp add: proxy_get_def autoTrackDeps_def Let_def split: jsval.splits)
  have dep1: "obj_deps ?s1 a = Some (fst (noticeChange (wcRegister s) PSelf D (dependsTracker s)))"
    using dep by (rule obj_deps_notice_obj)
  show ?thesis
  proof (cases "has_edge D PSelf w k")
    case True
    then have "f \<in> set (callerSet (dependsTracker ?s1))"
      using notice_obj_schedules [OF dep True f] by simp
    then show ?thesis
      using pending_grows_notice_obj [of ?s1 a "PStr ''length''"] eq by (auto simp: pending_grows_def)
  next
    case False
    then have "has_edge (fst (noticeChange (wcRegister s) PSelf D (dependsTracker s))) (PStr ''length'') w k"
      using e by (simp add: has_edge_noticeChange)
    then show ?thesis
      using notice_obj_schedules [OF dep1 _ ] f eq by (simp add: register_notice_obj)
  qed
qed

text \<open>
  C13 (one slot, not a stack): a nested \<open>trackCall\<close> clears the single tracking slot
  on return, so a read the enclosing binder makes afterwards through a proxy of a plain
  object is not recorded at all.
\<close>

theorem nested_trackCall_untracks_outer_reads:
  assumes "obj_at (heap (run_access (ATrack w k g body out) s)) a = Some ob" and "kind ob = KPlain"
  shows "run_accesses [ATrack w k g body out, AGet (Prox a) p] s = run_access (ATrack w k g body out) s"
proof -
  have "depsTracker (run_access (ATrack w k g body out) s) = None"
    by (simp add: tracker_trackCall_with)
  then show ?thesis using assms by (simp add: proxy_get_untracked)
qed

end
