(* ===== verification/Scheduler.thy ===== *)
theory Scheduler
  imports Observer
begin

text \<open>
  The invalidation scheduler: \<open>_applyTracker20ms\<close> (\<open>Observer.ts\<close> lines 74--116),
  run once per animation frame. While the readiness flag is set and the pending set is
  non-empty it walks the set in insertion order; for each function it calls it and
  then deletes it; after every 20th call it reads the clock and stops when more than
  20 ms have passed since the tick began.

  Calling a function is a parameter \<open>run\<close> of the model (in the framework it re-runs a
  binder through \<open>trackCall\<close>, which may add entries). The clock is a parameter
  \<open>clk\<close>: \<open>clk n\<close> is the elapsed time after \<open>n\<close> calls. Nothing makes the loop stop
  when every call adds new entries and the clock never passes the budget, so the loop
  is a \<open>partial_function (option)\<close>; it returns the final state and, as a ghost
  output, the functions it ran in order. Because visited entries are deleted right
  after their call and new ones are appended, the next entry the JS iterator visits is
  always the first entry of the remaining set, which is what \<open>flush_loop\<close> takes.
\<close>

definition flush_step :: "(fn_id \<Rightarrow> obs_state \<Rightarrow> obs_state) \<Rightarrow> fn_id \<Rightarrow> obs_state \<Rightarrow> obs_state" where
  "flush_step run f s =
     (let s1 = run f s
      in s1\<lparr>dependsTracker :=
              (dependsTracker s1)\<lparr>callerSet := js_delete f (callerSet (dependsTracker s1))\<rparr>\<rparr>)"

partial_function (option) flush_loop ::
  "(fn_id \<Rightarrow> obs_state \<Rightarrow> obs_state) \<Rightarrow> (nat \<Rightarrow> nat) \<Rightarrow> nat \<Rightarrow> obs_state
   \<Rightarrow> (obs_state \<times> fn_id list) option" where
  "flush_loop run clk counter s =
     (case callerSet (dependsTracker s) of
        [] \<Rightarrow> Some (s, [])
      | f # _ \<Rightarrow>
          (let s' = flush_step run f s; c = Suc counter
           in if c mod 20 = 0 \<and> 20 < clk c then Some (s', [f])
              else Option.bind (flush_loop run clk c s') (\<lambda>(s'', ran). Some (s'', f # ran))))"

definition applyTracker20ms ::
  "(fn_id \<Rightarrow> obs_state \<Rightarrow> obs_state) \<Rightarrow> (nat \<Rightarrow> nat) \<Rightarrow> obs_state \<Rightarrow> (obs_state \<times> fn_id list) option" where
  "applyTracker20ms run clk s =
     (if wcex_ready s \<and> callerSet (dependsTracker s) \<noteq> [] then flush_loop run clk 0 s
      else Some (s, []))"

text \<open>A run of the engine that leaves the pending set alone.\<close>

definition keeps_pending :: "(fn_id \<Rightarrow> obs_state \<Rightarrow> obs_state) \<Rightarrow> bool" where
  "keeps_pending run \<longleftrightarrow> (\<forall>f s. callerSet (dependsTracker (run f s)) = callerSet (dependsTracker s))"

lemma pending_flush_step:
  "callerSet (dependsTracker (flush_step run f s)) = js_delete f (callerSet (dependsTracker (run f s)))"
  by (simp add: flush_step_def Let_def)

lemma flush_loop_Nil:
  "callerSet (dependsTracker s) = [] \<Longrightarrow> flush_loop run clk n s = Some (s, [])"
  by (simp add: flush_loop.simps)

lemma flush_loop_Cons:
  "callerSet (dependsTracker s) = f # rest \<Longrightarrow>
   flush_loop run clk n s =
     (if Suc n mod 20 = 0 \<and> 20 < clk (Suc n) then Some (flush_step run f s, [f])
      else Option.bind (flush_loop run clk (Suc n) (flush_step run f s)) (\<lambda>(s'', ran). Some (s'', f # ran)))"
  by (simp add: flush_loop.simps [of run clk n s] Let_def)

text \<open>
  C6 (frame budget): once the tick is past 20 ms at a multiple of 20 calls, the flush
  returns, whatever the run functions schedule.
\<close>

theorem flush_loop_budget_stops:
  assumes "n < c" and "c mod 20 = 0" and "20 < clk c"
  shows "\<exists>r. flush_loop run clk n s = Some r"
  using assms
proof (induction "c - n" arbitrary: n s)
  case 0
  then show ?case by simp
next
  case (Suc d)
  show ?case
  proof (cases "callerSet (dependsTracker s)")
    case Nil
    then show ?thesis by (simp add: flush_loop_Nil)
  next
    case (Cons f rest)
    show ?thesis
    proof (cases "Suc n mod 20 = 0 \<and> 20 < clk (Suc n)")
      case True
      then show ?thesis using Cons by (simp add: flush_loop_Cons)
    next
      case False
      then have "Suc n < c" using Suc.prems by (cases "Suc n = c") auto
      then obtain r where "flush_loop run clk (Suc n) (flush_step run f s) = Some r"
        using Suc.hyps(1) [of "Suc n"] Suc.hyps(2) Suc.prems by fastforce
      then show ?thesis using Cons False by (cases r) (simp add: flush_loop_Cons)
    qed
  qed
qed

text \<open>
  Termination of the flush: when running a function schedules nothing new, the
  flush returns, since each step deletes the entry it ran.
\<close>

theorem flush_loop_static_stops:
  assumes "keeps_pending run"
  shows "\<exists>r. flush_loop run clk n s = Some r"
proof (induction "length (callerSet (dependsTracker s))" arbitrary: n s rule: less_induct)
  case less
  show ?case
  proof (cases "callerSet (dependsTracker s)")
    case Nil
    then show ?thesis by (simp add: flush_loop_Nil)
  next
    case (Cons f rest)
    have "length (callerSet (dependsTracker (flush_step run f s))) < length (callerSet (dependsTracker s))"
      using assms Cons by (simp add: pending_flush_step keeps_pending_def js_delete_def
          length_removeAll_less le_imp_less_Suc)
    then obtain r where "flush_loop run clk (Suc n) (flush_step run f s) = Some r"
      using less by blast
    then show ?thesis using Cons by (cases r) (simp add: flush_loop_Cons)
  qed
qed

lemma flush_step_static:
  "keeps_pending run \<Longrightarrow> distinct (f # rest) \<Longrightarrow> callerSet (dependsTracker s) = f # rest \<Longrightarrow>
   callerSet (dependsTracker (flush_step run f s)) = rest"
  by (simp add: pending_flush_step keeps_pending_def js_delete_def)

text \<open>
  C5 (flush order): when the runs schedule nothing new and the set has no duplicates,
  the flush runs a prefix of the pending set in insertion order, leaves exactly the rest
  pending, and stops early only at a multiple of 20 calls with the clock past 20 ms.
\<close>

theorem flush_loop_prefix:
  assumes "keeps_pending run" and "distinct (callerSet (dependsTracker s))"
    and "flush_loop run clk n s = Some (s', rs)"
  shows "rs = take (length rs) (callerSet (dependsTracker s))
         \<and> callerSet (dependsTracker s') = drop (length rs) (callerSet (dependsTracker s))
         \<and> (callerSet (dependsTracker s') \<noteq> [] \<longrightarrow>
              (n + length rs) mod 20 = 0 \<and> 20 < clk (n + length rs))"
  using assms(2,3)
proof (induction "length (callerSet (dependsTracker s))" arbitrary: n s rs rule: less_induct)
  case less
  show ?case
  proof (cases "callerSet (dependsTracker s)")
    case Nil
    then show ?thesis using less.prems by (simp add: flush_loop_Nil)
  next
    case (Cons f rest)
    have step: "callerSet (dependsTracker (flush_step run f s)) = rest"
      using flush_step_static [OF assms(1)] less.prems(1) Cons by simp
    show ?thesis
    proof (cases "Suc n mod 20 = 0 \<and> 20 < clk (Suc n)")
      case True
      then have "s' = flush_step run f s" and "rs = [f]"
        using less.prems(2) Cons by (simp_all add: flush_loop_Cons)
      then show ?thesis using True Cons step by simp
    next
      case False
      then obtain rs' where r: "flush_loop run clk (Suc n) (flush_step run f s) = Some (s', rs')"
        and rs: "rs = f # rs'"
        using less.prems(2) Cons by (auto simp: flush_loop_Cons split: Option.bind_splits)
      have "distinct rest" using less.prems(1) Cons by simp
      then have IH: "rs' = take (length rs') rest \<and> callerSet (dependsTracker s') = drop (length rs') rest
         \<and> (callerSet (dependsTracker s') \<noteq> [] \<longrightarrow>
              (Suc n + length rs') mod 20 = 0 \<and> 20 < clk (Suc n + length rs'))"
        using less.hyps [of "flush_step run f s" "Suc n" rs'] r step Cons by simp
      then show ?thesis using rs Cons by simp
    qed
  qed
qed

text \<open>
  C14 (run then delete): \<open>_applyTracker20ms\<close> calls the function and deletes it
  afterwards, so a re-invalidation of the function raised during its own run is lost.
\<close>

theorem flush_step_drops_self:
  "f \<notin> set (callerSet (dependsTracker (flush_step run f s)))"
  by (simp add: pending_flush_step)

text \<open>
  C20 (readiness gate): before the ready flag is set the tick does nothing.
\<close>

theorem applyTracker20ms_gate:
  "\<not> wcex_ready s \<Longrightarrow> applyTracker20ms run clk s = Some (s, [])"
  by (simp add: applyTracker20ms_def)

end
