(* ===== verification/JsString.thy ===== *)
theory JsString
  imports Prelude
begin

text \<open>
  The JavaScript string built-ins the framework's helpers are written with, on strings
  as lists of characters: \<open>split\<close> with a one-character separator (\<open>split_on\<close>),
  \<open>Array.join\<close> (\<open>join_with\<close>), \<open>replace\<close> of the first occurrence and of all
  occurrences of a character, \<open>startsWith\<close>, \<open>trim\<close>, and the ASCII case mappings of
  \<open>toLowerCase\<close>/\<open>toUpperCase\<close>. Case mapping is modelled on ASCII letters; the
  framework only applies it to tag names, style names and URL parts.
\<close>

fun split_on :: "char \<Rightarrow> string \<Rightarrow> string list" where
  "split_on c [] = [[]]"
| "split_on c (x # xs) =
     (if x = c then [] # split_on c xs
      else (case split_on c xs of w # ws \<Rightarrow> (x # w) # ws | [] \<Rightarrow> [[x]]))"

fun join_with :: "string \<Rightarrow> string list \<Rightarrow> string" where
  "join_with sep [] = []"
| "join_with sep [w] = w"
| "join_with sep (w # ws) = w @ sep @ join_with sep ws"

fun replace_first :: "char \<Rightarrow> string \<Rightarrow> string \<Rightarrow> string" where
  "replace_first c r [] = []"
| "replace_first c r (x # xs) = (if x = c then r @ xs else x # replace_first c r xs)"

definition replace_all :: "char \<Rightarrow> string \<Rightarrow> string \<Rightarrow> string" where
  "replace_all c r s = concat (map (\<lambda>x. if x = c then r else [x]) s)"

definition starts_with :: "string \<Rightarrow> string \<Rightarrow> bool" where
  "starts_with s p \<longleftrightarrow> take (length p) s = p"

definition ends_with :: "string \<Rightarrow> string \<Rightarrow> bool" where
  "ends_with s p \<longleftrightarrow> length p \<le> length s \<and> drop (length s - length p) s = p"

definition is_upper :: "char \<Rightarrow> bool" where
  "is_upper c \<longleftrightarrow> (65::nat) \<le> of_char c \<and> (of_char c :: nat) \<le> 90"

definition is_lower :: "char \<Rightarrow> bool" where
  "is_lower c \<longleftrightarrow> (97::nat) \<le> of_char c \<and> (of_char c :: nat) \<le> 122"

definition is_digit_char :: "char \<Rightarrow> bool" where
  "is_digit_char c \<longleftrightarrow> (48::nat) \<le> of_char c \<and> (of_char c :: nat) \<le> 57"

definition to_lower_c :: "char \<Rightarrow> char" where
  "to_lower_c c = (if is_upper c then char_of (of_char c + (32::nat)) else c)"

definition to_upper_c :: "char \<Rightarrow> char" where
  "to_upper_c c = (if is_lower c then char_of (of_char c - (32::nat)) else c)"

abbreviation to_lower :: "string \<Rightarrow> string" where
  "to_lower s \<equiv> map to_lower_c s"

text \<open>\<open>String.prototype.trim\<close>: the white space and line terminators of one byte.\<close>

definition is_js_space :: "char \<Rightarrow> bool" where
  "is_js_space c \<longleftrightarrow> (of_char c :: nat) \<in> {9, 10, 11, 12, 13, 32, 160}"

definition trim :: "string \<Rightarrow> string" where
  "trim s = rev (dropWhile is_js_space (rev (dropWhile is_js_space s)))"

text \<open>The first occurrence of a separator: the text before it and the text after it.\<close>

fun split_first :: "string \<Rightarrow> string \<Rightarrow> (string \<times> string) option" where
  "split_first sep [] = (if sep = [] then Some ([], []) else None)"
| "split_first sep (x # xs) =
     (if take (length sep) (x # xs) = sep then Some ([], drop (length sep) (x # xs))
      else map_option (\<lambda>(a, b). (x # a, b)) (split_first sep xs))"

subsection \<open>Splitting and joining\<close>

named_theorems str_simps "facts about the string built-ins"

lemma split_on_ne [str_simps]: "split_on c s \<noteq> []"
  by (induction s) (auto split: list.splits)

lemma join_with_Cons_Cons [str_simps]:
  "join_with sep ((x # a) # l) = x # join_with sep (a # l)"
  by (cases l) simp_all

lemma join_split_on [str_simps]: "join_with [c] (split_on c s) = s"
proof (induction s)
  case (Cons x xs)
  then show ?case
    by (cases "split_on c xs") (auto simp: split_on_ne join_with_Cons_Cons split: list.splits)
qed simp

lemma split_on_no_sep [str_simps]: "c \<notin> set s \<Longrightarrow> split_on c s = [s]"
  by (induction s) auto

lemma split_on_append_sep:
  "c \<notin> set w \<Longrightarrow> split_on c (w @ c # s) = w # split_on c s"
  by (induction w) auto

lemma split_on_join:
  "ws \<noteq> [] \<Longrightarrow> (\<forall>w \<in> set ws. c \<notin> set w) \<Longrightarrow> split_on c (join_with [c] ws) = ws"
proof (induction ws)
  case (Cons w ws)
  then show ?case
    by (cases ws) (simp_all add: split_on_no_sep split_on_append_sep)
qed simp

lemma split_on_parts [str_simps]: "w \<in> set (split_on c s) \<Longrightarrow> c \<notin> set w"
proof (induction s arbitrary: w)
  case (Cons x xs)
  then show ?case by (auto split: if_splits list.splits)
qed simp

lemma replace_all_id [str_simps]: "c \<notin> set s \<Longrightarrow> replace_all c r s = s"
  by (induction s) (auto simp: replace_all_def)

lemma set_replace_all: "set (replace_all c r s) \<subseteq> (set s - {c}) \<union> set r"
  by (auto simp: replace_all_def split: if_splits)

lemma replace_first_absent [str_simps]: "c \<notin> set s \<Longrightarrow> replace_first c r s = s"
  by (induction s) auto

lemma to_lower_c_upper: "is_upper c \<Longrightarrow> \<not> is_upper (to_lower_c c)"
  by (auto simp: to_lower_c_def is_upper_def)

lemma to_lower_c_not_upper [str_simps]: "\<not> is_upper (to_lower_c c)"
proof (cases "is_upper c")
  case True
  then show ?thesis by (rule to_lower_c_upper)
next
  case False
  then show ?thesis by (simp add: to_lower_c_def)
qed

lemma to_lower_c_id [str_simps]: "\<not> is_upper c \<Longrightarrow> to_lower_c c = c"
  by (simp add: to_lower_c_def)

lemma upper_lower_c: "is_lower c \<Longrightarrow> to_lower_c (to_upper_c c) = c"
proof -
  assume l: "is_lower c"
  then have "(of_char c :: nat) < 256" by (simp add: is_lower_def)
  with l show ?thesis
    by (auto simp: to_lower_c_def to_upper_c_def is_lower_def is_upper_def)
qed

lemma lower_upper_c: "is_upper c \<Longrightarrow> to_upper_c (to_lower_c c) = c"
  by (auto simp: to_lower_c_def to_upper_c_def is_lower_def is_upper_def)

lemma is_lower_to_lower_c: "is_upper c \<Longrightarrow> is_lower (to_lower_c c)"
  by (auto simp: to_lower_c_def is_lower_def is_upper_def)


subsection \<open>Percent-encoding\<close>

text \<open>
  \<open>encodeURIComponent\<close> and \<open>decodeURI\<close>/\<open>decodeURIComponent\<close> on strings of
  code points below 256 (one \<open>char\<close> each). Code points from U+0080 are two UTF-8
  bytes; an escape sequence that is malformed or decodes to a code point above U+00FF
  is an error (\<open>None\<close>); for the latter JavaScript would decode a wider character,
  which these strings cannot hold. \<open>decodeURI\<close> leaves escapes of the reserved
  characters in place.
\<close>

definition hex_digit :: "nat \<Rightarrow> char" where
  "hex_digit d = (if d < 10 then char_of (48 + d) else char_of (55 + d))"

definition hex_val :: "char \<Rightarrow> nat option" where
  "hex_val c =
     (let n = (of_char c :: nat)
      in if 48 \<le> n \<and> n \<le> 57 then Some (n - 48)
         else if 65 \<le> n \<and> n \<le> 70 then Some (n - 55)
         else if 97 \<le> n \<and> n \<le> 102 then Some (n - 87) else None)"

definition pct :: "nat \<Rightarrow> string" where
  "pct b = [CHR ''%'', hex_digit (b div 16), hex_digit (b mod 16)]"

definition uri_unreserved :: "char \<Rightarrow> bool" where
  "uri_unreserved c \<longleftrightarrow> is_upper c \<or> is_lower c \<or> is_digit_char c \<or> c \<in> set ''-_.!~*'()''"

definition encode_char :: "char \<Rightarrow> string" where
  "encode_char c =
     (let n = (of_char c :: nat)
      in if uri_unreserved c then [c]
         else if n < 128 then pct n
         else pct (192 + n div 64) @ pct (128 + n mod 64))"

definition encodeURIComponent :: "string \<Rightarrow> string" where
  "encodeURIComponent s = concat (map encode_char s)"

fun uri_decode :: "(char \<Rightarrow> bool) \<Rightarrow> string \<Rightarrow> string option" where
  "uri_decode keep [] = Some []"
| "uri_decode keep (c # r) =
     (if c \<noteq> CHR ''%'' then map_option (\<lambda>t. c # t) (uri_decode keep r)
      else (case r of
              a # b # r' \<Rightarrow>
                (case (hex_val a, hex_val b) of
                   (Some x, Some y) \<Rightarrow>
                     (let n = 16 * x + y
                      in if n < 128 then
                           (if keep (char_of n)
                            then map_option (\<lambda>t. c # a # b # t) (uri_decode keep r')
                            else map_option (\<lambda>t. char_of n # t) (uri_decode keep r'))
                         else if 194 \<le> n \<and> n \<le> 195 then
                           (case r' of
                              CHR ''%'' # a2 # b2 # r2 \<Rightarrow>
                                (case (hex_val a2, hex_val b2) of
                                   (Some x2, Some y2) \<Rightarrow>
                                     (let m = 16 * x2 + y2
                                      in if 128 \<le> m \<and> m < 192
                                         then map_option (\<lambda>t. char_of (64 * (n - 192) + (m - 128)) # t)
                                                (uri_decode keep r2)
                                         else None)
                                 | _ \<Rightarrow> None)
                            | _ \<Rightarrow> None)
                         else None)
                 | _ \<Rightarrow> None)
            | _ \<Rightarrow> None))"

definition decodeURIComponent :: "string \<Rightarrow> string option" where
  "decodeURIComponent s = uri_decode (\<lambda>_. False) s"

definition decodeURI :: "string \<Rightarrow> string option" where
  "decodeURI s = uri_decode (\<lambda>c. c \<in> set '';/?:@&=+$,#'') s"

lemma hex_val_digit: "d < 16 \<Longrightarrow> hex_val (hex_digit d) = Some d"
  by (auto simp: hex_val_def hex_digit_def Let_def)

lemma decode_pct:
  "b < 256 \<Longrightarrow> \<exists>x y. hex_val (hex_digit (b div 16)) = Some x \<and> hex_val (hex_digit (b mod 16)) = Some y
     \<and> 16 * x + y = b"
  by (simp add: hex_val_digit less_mult_imp_div_less)

lemma not_percent_unreserved: "uri_unreserved c \<Longrightarrow> c \<noteq> CHR ''%''"
  by (auto simp: uri_unreserved_def is_upper_def is_lower_def is_digit_char_def)

lemma uri_decode_encode_char:
  "uri_decode (\<lambda>_. False) (encode_char c @ r) = map_option (\<lambda>t. c # t) (uri_decode (\<lambda>_. False) r)"
proof -
  let ?n = "of_char c :: nat"
  have n256: "?n < 256" by (rule nat_of_char_less_256)
  show ?thesis
  proof (cases "uri_unreserved c")
    case True
    then show ?thesis using not_percent_unreserved [OF True] by (simp add: encode_char_def)
  next
    case nu: False
    show ?thesis
    proof (cases "?n < 128")
      case True
      then show ?thesis using nu
        by (simp add: encode_char_def pct_def hex_val_digit less_mult_imp_div_less Let_def)
    next
      case False
      have "2 \<le> ?n div 64" using div_le_mono [of 128 ?n 64] False by simp
      moreover have "?n div 64 \<le> 3" using div_le_mono [of ?n 255 64] n256 by simp
      ultimately have a: "194 \<le> 192 + ?n div 64 \<and> 192 + ?n div 64 \<le> 195" by simp
      have b: "192 + ?n div 64 < 256" "128 + ?n mod 64 < 256" using a by simp_all
      have c: "128 \<le> 128 + ?n mod 64 \<and> 128 + ?n mod 64 < 192" by simp
      have d: "64 * (192 + ?n div 64 - 192) + (128 + ?n mod 64 - 128) = ?n" by simp
      have "(16 * ((192 + ?n div 64) div 16) + (192 + ?n div 64) mod 16) = 192 + ?n div 64"
        "(16 * ((128 + ?n mod 64) div 16) + (128 + ?n mod 64) mod 16) = 128 + ?n mod 64"
        by simp_all
      then show ?thesis using nu False a b c d
        by (simp add: encode_char_def pct_def hex_val_digit less_mult_imp_div_less Let_def
            del: div_mult_mod_eq)
    qed
  qed
qed

theorem decode_encodeURIComponent: "decodeURIComponent (encodeURIComponent s) = Some s"
  by (induction s) (simp_all add: decodeURIComponent_def encodeURIComponent_def uri_decode_encode_char)

lemma to_lower_no_upper: "list_all (\<lambda>c. \<not> is_upper c) s \<Longrightarrow> to_lower s = s"
  by (induction s) (simp_all add: to_lower_c_id)

lemma split_on_two:
  "c \<notin> set a \<Longrightarrow> c \<notin> set b \<Longrightarrow> split_on c (a @ c # b) = [a, b]"
  by (simp add: split_on_append_sep split_on_no_sep)

lemma set_join_with: "set (join_with sep ws) \<subseteq> set sep \<union> (\<Union>w \<in> set ws. set w)"
  by (induction sep ws rule: join_with.induct) auto

lemma split_join_no_sep:
  "ws \<noteq> [] \<Longrightarrow> list_all (\<lambda>w. c \<notin> set w) ws \<Longrightarrow> split_on c (join_with [c] ws) = ws"
  by (rule split_on_join) (simp_all add: list_all_iff)

end
