(* ===== verification/Utils.thy ===== *)
theory Utils
  imports Complex_Main "HOL-Library.Multiset" JsString
begin

text \<open>
  The pure helpers of \<open>Utils.ts\<close> (object \<open>_Utils\<close>, \<open>objectGet\<close>,
  \<open>PromiseExt.once\<close>): URL joining, the case conversions of tag and style names, file
  extensions, the truthiness test \<open>_checkBool\<close>, path lookup in nested objects, the
  debounce wrapper \<open>_delayCall\<close>, the memo of \<open>once\<close> and the child walk of
  \<open>_walkChild\<close>. Arguments that may be \<open>undefined\<close> or \<open>null\<close> are options.
\<close>

section \<open>\<open>_joinUrl\<close>\<close>

text \<open>The inner \<open>sp.forEach\<close>: empty parts and \<open>.\<close> are skipped, \<open>..\<close> pops.\<close>

fun join_segments :: "string list \<Rightarrow> string list \<Rightarrow> string list" where
  "join_segments pl [] = pl"
| "join_segments pl (part # ps) =
     join_segments
       (if part = [] \<or> part = ''.'' then pl else if part = ''..'' then butlast pl else pl @ [part]) ps"

text \<open>
  One part of \<open>parts.forEach((url, i) => ...)\<close>. The first part, when it is truthy,
  either starts the list with the root marker \<open>""\<close> or, when it contains
  \<open>://\<close>, with the scheme \<open>sp[0] + ":/"\<close>; \<open>url.split("://", 2)[1]\<close> is the text
  between the first and the second \<open>://\<close>.
\<close>

definition url_step :: "nat \<Rightarrow> string list \<Rightarrow> string option \<Rightarrow> string list" where
  "url_step i pl u =
     (case u of
        None \<Rightarrow> pl
      | Some url \<Rightarrow>
          if url = [] then pl
          else
            (let (pl1, url1) =
                   (if i = 0 then
                      (if starts_with url ''/'' then (pl @ [[]], url)
                       else (case split_first ''://'' url of
                               None \<Rightarrow> (pl, url)
                             | Some (a, rest) \<Rightarrow>
                                 (pl @ [a @ '':/''],
                                  (case split_first ''://'' rest of None \<Rightarrow> rest | Some (b, _) \<Rightarrow> b))))
                    else (pl, url))
             in if url1 = [] then pl1 else join_segments pl1 (split_on CHR ''/'' url1)))"

fun join_parts :: "nat \<Rightarrow> string list \<Rightarrow> string option list \<Rightarrow> string list" where
  "join_parts i pl [] = pl"
| "join_parts i pl (u # us) = join_parts (Suc i) (url_step i pl u) us"

definition joinUrl :: "string option list \<Rightarrow> string" where
  "joinUrl parts = join_with ''/'' (join_parts 0 [] parts)"

subsection \<open>Shape of the path list\<close>

definition seg_ok :: "string \<Rightarrow> bool" where
  "seg_ok w \<longleftrightarrow> w \<noteq> [] \<and> w \<noteq> ''.'' \<and> w \<noteq> ''..'' \<and> CHR ''/'' \<notin> set w"

text \<open>The head of the list: the root marker, a segment, or a scheme prefix.\<close>

definition head_ok :: "string \<Rightarrow> bool" where
  "head_ok w \<longleftrightarrow> w = [] \<or> seg_ok w \<or>
     (\<exists>X. w = X @ '':/'' \<and> \<not> starts_with X ''/''
        \<and> (\<forall>c. split_first ''://'' (X @ ''://'' @ c) = Some (X, c)))"

definition path_shape :: "string list \<Rightarrow> bool" where
  "path_shape pl \<longleftrightarrow> (\<forall>w \<in> set (tl pl). seg_ok w) \<and> (pl \<noteq> [] \<longrightarrow> head_ok (hd pl))"

lemma split_first_eq: "split_first sep s = Some (a, b) \<Longrightarrow> s = a @ sep @ b"
proof (induction sep s arbitrary: a rule: split_first.induct)
  case (2 sep x xs)
  then show ?case
    by (auto split: if_splits) (metis append_take_drop_id)
qed (auto split: if_splits)

lemma split_first_empty_sep: "split_first [] c = Some ([], c)"
  by (cases c) simp_all

lemma split_first_prefix:
  "split_first sep s = Some (a, b) \<Longrightarrow> split_first sep (a @ sep @ c) = Some (a, c)"
proof (induction sep s arbitrary: a rule: split_first.induct)
  case (1 sep)
  then show ?case by (cases c) (auto split: if_splits)
next
  case (2 sep x xs)
  show ?case
  proof (cases "take (length sep) (x # xs) = sep")
    case True
    then have "a = []" using "2.prems" by simp
    then show ?thesis by (cases sep) (simp_all add: split_first_empty_sep)
  next
    case False
    then obtain a' where a: "a = x # a'" and r: "split_first sep xs = Some (a', b)"
      using "2.prems" by (auto split: if_splits)
    have xs: "xs = a' @ sep @ b" using r by (rule split_first_eq)
    have "take (length sep) (x # a' @ sep @ c) = take (length sep) (x # xs)"
      by (simp add: xs take_Cons' take_append)
    then show ?thesis using False "2.IH" [OF False r] a by simp
  qed
qed

fun no_dslash :: "string \<Rightarrow> bool" where
  "no_dslash (x # y # r) \<longleftrightarrow> \<not> (x = CHR ''/'' \<and> y = CHR ''/'') \<and> no_dslash (y # r)"
| "no_dslash _ \<longleftrightarrow> True"

lemma no_dslash_split_first: "no_dslash s \<Longrightarrow> split_first ''://'' s = None"
proof (induction s rule: no_dslash.induct)
  case (1 x y r)
  then show ?case by (cases r) auto
qed auto

lemma no_dslash_Cons:
  "no_dslash (x # s) \<longleftrightarrow> (s = [] \<or> \<not> (x = CHR ''/'' \<and> hd s = CHR ''/'')) \<and> no_dslash s"
  by (cases s) auto

lemma no_dslash_slash_free: "CHR ''/'' \<notin> set w \<Longrightarrow> no_dslash w"
  by (induction w rule: no_dslash.induct) auto

lemma no_dslash_join:
  "\<forall>w \<in> set ws. seg_ok w \<Longrightarrow> no_dslash (join_with ''/'' ws)"
proof (induction ws)
  case (Cons w ws)
  show ?case
  proof (cases ws)
    case Nil
    then show ?thesis using Cons.prems by (simp add: seg_ok_def no_dslash_slash_free)
  next
    case (Cons v vs)
    have IH: "no_dslash (join_with ''/'' ws)" and sv: "seg_ok v" and sw: "seg_ok w"
      using Cons \<open>\<forall>w \<in> set (w # ws). seg_ok w\<close> \<open>_ \<Longrightarrow> no_dslash (join_with ''/'' ws)\<close>
      by auto
    obtain y ys where v: "v = y # ys" using sv by (cases v) (auto simp: seg_ok_def)
    then have hd: "hd (join_with ''/'' ws) \<noteq> CHR ''/''" using sv Cons
      by (cases vs) (auto simp: seg_ok_def)
    have "no_dslash (CHR ''/'' # join_with ''/'' ws)"
      using IH hd v Cons by (simp add: no_dslash_Cons)
    moreover have "CHR ''/'' \<notin> set w" using sw by (simp add: seg_ok_def)
    ultimately show ?thesis using Cons
      by (induction w) (auto simp: no_dslash_Cons)
  qed
qed simp

lemma join_segments_ok: "\<forall>w \<in> set ws. seg_ok w \<Longrightarrow> join_segments pl ws = pl @ ws"
  by (induction ws arbitrary: pl) (auto simp: seg_ok_def)

lemma path_shape_butlast: "path_shape pl \<Longrightarrow> path_shape (butlast pl)"
proof -
  assume a: "path_shape pl"
  have "set (tl (butlast pl)) \<subseteq> set (tl pl)"
    by (cases pl) (auto dest: in_set_butlastD)
  moreover have "butlast pl \<noteq> [] \<Longrightarrow> hd (butlast pl) = hd pl"
    by (cases pl) auto
  ultimately show ?thesis using a by (auto simp: path_shape_def)
qed

lemma path_shape_snoc: "path_shape pl \<Longrightarrow> seg_ok w \<Longrightarrow> path_shape (pl @ [w])"
  by (cases pl) (auto simp: path_shape_def head_ok_def)

lemma path_shape_join_segments:
  "path_shape pl \<Longrightarrow> \<forall>w \<in> set ws. CHR ''/'' \<notin> set w \<Longrightarrow> path_shape (join_segments pl ws)"
proof (induction ws arbitrary: pl)
  case (Cons part ps)
  have "path_shape
      (if part = [] \<or> part = ''.'' then pl else if part = ''..'' then butlast pl else pl @ [part])"
    using Cons.prems by (auto simp: path_shape_butlast path_shape_snoc seg_ok_def)
  then show ?case using Cons.IH Cons.prems by simp
qed simp

lemma split_slash_free: "\<forall>w \<in> set (split_on CHR ''/'' s). CHR ''/'' \<notin> set w"
  by (auto dest: split_on_parts)

lemma path_shape_url_step_later:
  "path_shape pl \<Longrightarrow> 0 < i \<Longrightarrow> path_shape (url_step i pl u)"
  by (auto simp: url_step_def path_shape_join_segments split_slash_free split: option.splits)

lemma path_shape_url_step_first: "path_shape (url_step 0 [] u)"
proof -
  have root: "path_shape [[]]" by (simp add: path_shape_def head_ok_def)
  have pre: "path_shape [a @ '':/'']" if "split_first ''://'' url = Some (a, rest)"
      and "\<not> starts_with url ''/''" for url a rest
  proof -
    have "url = a @ ''://'' @ rest" using that(1) by (rule split_first_eq)
    then have "\<not> starts_with a ''/''" using that(2)
      by (cases a) (auto simp: starts_with_def)
    moreover have "\<forall>c. split_first ''://'' (a @ ''://'' @ c) = Some (a, c)"
      using split_first_prefix [OF that(1)] by blast
    ultimately show ?thesis by (auto simp: path_shape_def head_ok_def)
  qed
  have nil: "path_shape []" by (simp add: path_shape_def)
  show ?thesis using root pre nil
    by (auto simp: url_step_def path_shape_join_segments split_slash_free
        split: option.splits prod.splits)
qed

lemma path_shape_join_parts:
  "path_shape pl \<Longrightarrow> 0 < i \<Longrightarrow> path_shape (join_parts i pl us)"
  by (induction us arbitrary: i pl) (simp_all add: path_shape_url_step_later)

lemma path_shape_joinUrl: "path_shape (join_parts 0 [] parts)"
proof (cases parts)
  case (Cons u us)
  then show ?thesis
    using path_shape_join_parts [OF path_shape_url_step_first [of u], of 1 us] by simp
qed (simp add: path_shape_def)

lemma join_with_Nil_head: "rest \<noteq> [] \<Longrightarrow> join_with ''/'' ([] # rest) = CHR ''/'' # join_with ''/'' rest"
  by (cases rest) simp_all

lemma join_with_Cons: "join_with sep (w # ws) = w @ (if ws = [] then [] else sep @ join_with sep ws)"
  by (cases ws) simp_all

lemma join_with_ne: "\<forall>w \<in> set ws. seg_ok w \<Longrightarrow> ws \<noteq> [] \<Longrightarrow> join_with ''/'' ws \<noteq> []"
  by (cases ws) (auto simp: seg_ok_def join_with_Cons)

text \<open>
  Joining is idempotent: joining the result of \<open>_joinUrl\<close> again gives it back,
  unless the result is a bare scheme such as \<open>http:/\<close>.
\<close>

theorem joinUrl_idem:
  assumes "\<not> ends_with (joinUrl parts) '':/''"
  shows "joinUrl [Some (joinUrl parts)] = joinUrl parts"
proof -
  let ?pl = "join_parts 0 [] parts"
  have sh: "path_shape ?pl" by (rule path_shape_joinUrl)
  have split_join: "split_on CHR ''/'' (join_with ''/'' ws) = ws"
    if "ws \<noteq> []" "\<forall>w \<in> set ws. seg_ok w" for ws
    using split_on_join [OF that(1)] that(2) by (auto simp: seg_ok_def)
  show ?thesis
  proof (cases ?pl)
    case Nil
    then show ?thesis by (simp add: joinUrl_def url_step_def)
  next
    case (Cons h rest)
    then have rest: "\<forall>w \<in> set rest. seg_ok w" and h: "head_ok h"
      using sh by (auto simp: path_shape_def)
    consider (root) "h = []" | (seg) "seg_ok h"
      | (pre) X where "h = X @ '':/''" "\<not> starts_with X ''/''"
          "\<forall>c. split_first ''://'' (X @ ''://'' @ c) = Some (X, c)"
      using h unfolding head_ok_def by blast
    then show ?thesis
    proof cases
      case root
      show ?thesis
      proof (cases "rest = []")
        case True
        then show ?thesis using Cons root by (simp add: joinUrl_def url_step_def)
      next
        case False
        let ?J = "join_with ''/'' rest"
        have R: "joinUrl parts = CHR ''/'' # ?J"
          using Cons root False by (simp add: joinUrl_def join_with_Nil_head)
        have "url_step 0 [] (Some (CHR ''/'' # ?J)) = [] # rest"
          using split_join [OF False rest] rest
          by (simp add: url_step_def starts_with_def join_segments_ok)
        then show ?thesis using R False by (simp add: joinUrl_def join_with_Nil_head)
      qed
    next
      case seg
      let ?R = "join_with ''/'' (h # rest)"
      have all: "\<forall>w \<in> set (h # rest). seg_ok w" using seg rest by simp
      have ns: "\<not> starts_with ?R ''/''"
        using seg by (cases h; cases rest) (auto simp: seg_ok_def starts_with_def)
      have ne: "?R \<noteq> []" using join_with_ne [OF all] by simp
      have "url_step 0 [] (Some ?R) = join_segments [] (split_on CHR ''/'' ?R)"
        using ns ne no_dslash_split_first [OF no_dslash_join [OF all]]
        by (simp add: url_step_def)
      also have "\<dots> = h # rest"
        using split_join [OF _ all] join_segments_ok [OF all, of "[]"] by simp
      finally show ?thesis using Cons by (simp add: joinUrl_def)
    next
      case pre
      have "rest \<noteq> []"
      proof
        assume "rest = []"
        then have "joinUrl parts = X @ '':/''" using Cons pre(1) by (simp add: joinUrl_def)
        then show False using assms by (simp add: ends_with_def)
      qed
      let ?J = "join_with ''/'' rest"
      have R: "joinUrl parts = X @ ''://'' @ ?J"
        using Cons pre(1) \<open>rest \<noteq> []\<close> by (cases rest) (simp_all add: joinUrl_def)
      have ns: "\<not> starts_with (X @ ''://'' @ ?J) ''/''"
        using pre(2) by (cases X) (auto simp: starts_with_def)
      have sJ: "split_first ''://'' ?J = None"
        by (rule no_dslash_split_first [OF no_dslash_join [OF rest]])
      have Jne: "?J \<noteq> []" using join_with_ne [OF rest \<open>rest \<noteq> []\<close>] .
      have "url_step 0 [] (Some (X @ ''://'' @ ?J)) = (X @ '':/'') # rest"
        using ns pre(3) sJ Jne split_join [OF \<open>rest \<noteq> []\<close> rest]
        by (simp add: url_step_def join_segments_ok [OF rest])
      then show ?thesis using R Cons pre(1) by (simp add: joinUrl_def)
    qed
  qed
qed


text \<open>
  C23 (\<open>..\<close> escapes the root): \<open>..\<close> pops the root marker like any segment, so
  joining \<open>/a\<close> with \<open>../../b\<close> yields the relative path \<open>b\<close>.
\<close>

theorem joinUrl_dotdot_escapes_root:
  "seg_ok a \<Longrightarrow> seg_ok b \<Longrightarrow> joinUrl [Some (''/'' @ a), Some (''../../'' @ b)] = b"
  by (simp add: joinUrl_def url_step_def starts_with_def seg_ok_def split_on_no_sep)

lemma joinUrl_scheme_only:
  "joinUrl [Some ''http://''] = ''http:/'' \<and> joinUrl [Some ''http:/''] = ''http:''"
  by (simp add: joinUrl_def url_step_def starts_with_def)


section \<open>\<open>_kebabCase\<close>, \<open>_kebabCase2\<close>, \<open>_kebabToSnake\<close>\<close>

text \<open>
  \<open>_kebabCase\<close>: characters U+0020--U+002F and U+003A--U+0040 become dashes, each
  capital starts a new dash-separated lower-case word, runs of dashes collapse and a
  leading dash is dropped.
\<close>

definition kebab_punct :: "char \<Rightarrow> bool" where
  "kebab_punct c \<longleftrightarrow> (32::nat) \<le> of_char c \<and> (of_char c :: nat) \<le> 47
     \<or> (58::nat) \<le> of_char c \<and> (of_char c :: nat) \<le> 64"

fun collapse_dash :: "string \<Rightarrow> string" where
  "collapse_dash (x # y # r) =
     (if x = CHR ''-'' \<and> y = CHR ''-'' then collapse_dash (y # r) else x # collapse_dash (y # r))"
| "collapse_dash s = s"

definition dash_upper :: "string \<Rightarrow> string" where
  "dash_upper s = concat (map (\<lambda>c. if is_upper c then [CHR ''-'', to_lower_c c] else [c]) s)"

definition kebabCase :: "string \<Rightarrow> string" where
  "kebabCase s =
     dropWhile (\<lambda>c. c = CHR ''-'')
       (collapse_dash (dash_upper (map (\<lambda>c. if kebab_punct c then CHR ''-'' else c) s)))"

definition kebabCase2 :: "string \<Rightarrow> string \<Rightarrow> string" where
  "kebabCase2 s1 s2 = (if s1 \<noteq> [] then kebabCase s1 @ ''-'' @ kebabCase s2 else kebabCase s2)"

definition capitalize :: "string \<Rightarrow> string" where
  "capitalize w = (case w of [] \<Rightarrow> [] | c # r \<Rightarrow> to_upper_c c # r)"

definition kebabToSnake :: "string \<Rightarrow> string" where
  "kebabToSnake str =
     (case split_on CHR ''-'' (collapse_dash (dropWhile (\<lambda>c. c \<in> set ''-:$@'') str)) of
        [] \<Rightarrow> []
      | w # ws \<Rightarrow> w @ concat (map capitalize ws))"

definition is_alnum :: "char \<Rightarrow> bool" where
  "is_alnum c \<longleftrightarrow> is_upper c \<or> is_lower c \<or> is_digit_char c"

lemma alnum_not_punct: "is_alnum c \<Longrightarrow> \<not> kebab_punct c"
  by (auto simp: is_alnum_def kebab_punct_def is_upper_def is_lower_def is_digit_char_def)

lemma alnum_not_dash: "is_alnum c \<Longrightarrow> c \<noteq> CHR ''-''"
  by (auto simp: is_alnum_def is_upper_def is_lower_def is_digit_char_def)

lemma dash_upper_Nil [simp]: "dash_upper [] = []"
  by (simp add: dash_upper_def)

lemma dash_upper_Cons:
  "dash_upper (c # s) = (if is_upper c then [CHR ''-'', to_lower_c c] else [c]) @ dash_upper s"
  by (simp add: dash_upper_def)

lemma lower_not_dash: "is_upper c \<Longrightarrow> to_lower_c c \<noteq> CHR ''-''"
  using is_lower_to_lower_c [of c] by (auto simp: is_lower_def)

text \<open>On letters and digits the dashes inserted are never doubled.\<close>

lemma collapse_dash_alnum:
  "\<forall>c \<in> set s. is_alnum c \<Longrightarrow> collapse_dash (dash_upper s) = dash_upper s"
proof (induction s)
  case (Cons c s)
  then have IH: "collapse_dash (dash_upper s) = dash_upper s" and c: "is_alnum c" by auto
  show ?case
  proof (cases "is_upper c")
    case True
    then show ?thesis using IH lower_not_dash [OF True]
      by (cases "dash_upper s") (simp_all add: dash_upper_Cons)
  next
    case False
    then have "c \<noteq> CHR ''-''" using alnum_not_dash c by blast
    then show ?thesis using IH False
      by (cases "dash_upper s") (simp_all add: dash_upper_Cons)
  qed
qed (simp add: dash_upper_def)

lemma split_dash_upper:
  "\<forall>c \<in> set s. is_alnum c \<Longrightarrow>
     (case split_on CHR ''-'' (dash_upper s) of [] \<Rightarrow> [] | w # ws \<Rightarrow> w @ concat (map capitalize ws)) = s"
proof (induction s)
  case (Cons c s)
  then have IH: "(case split_on CHR ''-'' (dash_upper s) of [] \<Rightarrow> [] | w # ws \<Rightarrow> w @ concat (map capitalize ws)) = s"
    and c: "is_alnum c" by auto
  obtain w ws where sp: "split_on CHR ''-'' (dash_upper s) = w # ws"
    using split_on_ne by (metis list.exhaust)
  show ?case
  proof (cases "is_upper c")
    case True
    then show ?thesis using IH sp lower_not_dash [OF True] lower_upper_c [OF True]
      by (simp add: dash_upper_Cons capitalize_def)
  next
    case False
    then have "c \<noteq> CHR ''-''" using alnum_not_dash c by blast
    then show ?thesis using IH sp False by (simp add: dash_upper_Cons)
  qed
qed (simp add: dash_upper_def)

text \<open>
  C24 (style names round trip): for a camel-case name of ASCII letters and digits
  that does not start with a capital, \<open>_kebabToSnake\<close> undoes \<open>_kebabCase\<close>.
\<close>

theorem kebabToSnake_kebabCase:
  assumes "\<forall>c \<in> set s. is_alnum c" and "s \<noteq> [] \<Longrightarrow> \<not> is_upper (hd s)"
  shows "kebabToSnake (kebabCase s) = s"
proof -
  have m: "map (\<lambda>c. if kebab_punct c then CHR ''-'' else c) s = s"
    using assms(1) alnum_not_punct by (induction s) auto
  have nd: "dash_upper s = [] \<or> hd (dash_upper s) \<noteq> CHR ''-''"
    using assms alnum_not_dash by (cases s) (auto simp: dash_upper_Cons)
  then have d1: "dropWhile (\<lambda>c. c = CHR ''-'') (dash_upper s) = dash_upper s"
    by (cases "dash_upper s") auto
  have d2: "dropWhile (\<lambda>c. c \<in> set ''-:$@'') (dash_upper s) = dash_upper s"
  proof (cases s)
    case (Cons c t)
    then have "is_alnum c" "\<not> is_upper c" using assms by auto
    then have "c \<notin> set ''-:$@''"
      by (auto simp: is_alnum_def is_lower_def is_digit_char_def)
    then show ?thesis using Cons \<open>\<not> is_upper c\<close> by (simp add: dash_upper_Cons)
  qed (simp add: dash_upper_def)
  have k: "kebabCase s = dash_upper s"
    using m d1 collapse_dash_alnum [OF assms(1)] by (simp add: kebabCase_def)
  show ?thesis
    using d2 collapse_dash_alnum [OF assms(1)] split_dash_upper [OF assms(1)]
    by (simp add: k kebabToSnake_def)
qed

fun no_dd :: "string \<Rightarrow> bool" where
  "no_dd (x # y # r) \<longleftrightarrow> \<not> (x = CHR ''-'' \<and> y = CHR ''-'') \<and> no_dd (y # r)"
| "no_dd _ \<longleftrightarrow> True"

lemma set_collapse_dash: "set (collapse_dash s) \<subseteq> set s"
  by (induction s rule: collapse_dash.induct) auto

lemma hd_collapse_dash: "s \<noteq> [] \<Longrightarrow> collapse_dash s \<noteq> [] \<and> hd (collapse_dash s) = (if hd s = CHR ''-'' then CHR ''-'' else hd s)"
  by (induction s rule: collapse_dash.induct) auto

lemma no_dd_collapse_dash: "no_dd (collapse_dash s)"
proof (induction s rule: collapse_dash.induct)
  case (1 x y r)
  then show ?case using hd_collapse_dash [of "y # r"]
    by (cases "collapse_dash (y # r)") auto
qed auto

lemma collapse_dash_no_dd: "no_dd s \<Longrightarrow> collapse_dash s = s"
  by (induction s rule: collapse_dash.induct) auto

lemma no_dd_dropWhile: "no_dd s \<Longrightarrow> no_dd (dropWhile P s)"
  by (induction s rule: no_dd.induct) auto

lemma dash_upper_id: "\<forall>c \<in> set s. \<not> is_upper c \<Longrightarrow> dash_upper s = s"
  by (induction s) (auto simp: dash_upper_Cons)

lemma set_dash_upper:
  "c \<in> set (dash_upper s) \<Longrightarrow> (c \<in> set s \<and> \<not> is_upper c) \<or> c = CHR ''-'' \<or> (\<exists>u \<in> set s. is_upper u \<and> c = to_lower_c u)"
  by (induction s) (auto simp: dash_upper_Cons split: if_splits)

lemma lower_not_punct: "is_upper u \<Longrightarrow> \<not> kebab_punct (to_lower_c u)"
  using is_lower_to_lower_c [of u] by (auto simp: is_lower_def kebab_punct_def)

lemma kebabCase_chars:
  "c \<in> set (kebabCase s) \<Longrightarrow> \<not> is_upper c \<and> (kebab_punct c \<longrightarrow> c = CHR ''-'')"
proof -
  assume "c \<in> set (kebabCase s)"
  then have "c \<in> set (dash_upper (map (\<lambda>c. if kebab_punct c then CHR ''-'' else c) s))"
    unfolding kebabCase_def using set_dropWhileD set_collapse_dash by fastforce
  then show ?thesis
    using to_lower_c_not_upper lower_not_punct
    by (auto dest!: set_dash_upper simp: is_upper_def)
qed

text \<open>
  Kebab case is a normal form: \<open>_kebabCase\<close> of its own result changes nothing.
\<close>

theorem kebabCase_idem: "kebabCase (kebabCase s) = kebabCase s"
proof -
  let ?k = "kebabCase s"
  have m: "map (\<lambda>c. if kebab_punct c then CHR ''-'' else c) ?k = ?k"
    by (rule map_idI) (use kebabCase_chars in auto)
  have d: "dash_upper ?k = ?k"
    by (rule dash_upper_id) (use kebabCase_chars in auto)
  have c: "collapse_dash ?k = ?k"
    unfolding kebabCase_def
    by (rule collapse_dash_no_dd) (intro no_dd_dropWhile no_dd_collapse_dash)
  show ?thesis
    by (subst kebabCase_def) (simp only: m d c, simp add: kebabCase_def)
qed

section \<open>\<open>_extNameFromUrl\<close>\<close>

text \<open>
  \<open>last.match(/^(.*)\.(.+?)$/)\<close>: the greedy group ends at the last dot that is not the
  final character; \<open>.\<close> does not match a line terminator, so a last segment holding
  one has no extension.
\<close>

definition ext_of_segment :: "string \<Rightarrow> string" where
  "ext_of_segment last_seg =
     (if CHR 0x0A \<in> set last_seg \<or> CHR 0x0D \<in> set last_seg \<or> last_seg = [] then []
      else if CHR ''.'' \<in> set (butlast last_seg)
      then rev (takeWhile (\<lambda>c. c \<noteq> CHR ''.'') (rev (butlast last_seg))) @ [last last_seg]
      else [])"

definition extNameFromUrl :: "string \<Rightarrow> string" where
  "extNameFromUrl url = ext_of_segment (last (split_on CHR ''/'' url))"

lemma split_on_append_sep_gen:
  "split_on c (a @ c # b) = split_on c a @ split_on c b"
proof (induction a)
  case (Cons x a)
  then show ?case by (cases "split_on c a") (auto simp: split_on_ne)
qed simp

lemma takeWhile_upto: "\<forall>x \<in> set xs. P x \<Longrightarrow> \<not> P y \<Longrightarrow> takeWhile P (xs @ y # ys) = xs"
  by (induction xs) auto

lemma ext_of_segment_dot:
  assumes "e \<noteq> []" and "set e \<inter> {CHR ''.'', CHR 0x0A, CHR 0x0D} = {}"
    and "set base \<inter> {CHR 0x0A, CHR 0x0D} = {}"
  shows "ext_of_segment (base @ ''.'' @ e) = e"
proof -
  have bl: "butlast (base @ CHR ''.'' # e) = base @ CHR ''.'' # butlast e"
    using assms(1) by (simp add: butlast_append)
  have nd: "CHR ''.'' \<notin> set (butlast e)" using assms(2) by (auto dest: in_set_butlastD)
  have "takeWhile (\<lambda>c. c \<noteq> CHR ''.'') (rev (butlast (base @ CHR ''.'' # e))) = rev (butlast e)"
  proof -
    have "takeWhile (\<lambda>c. c \<noteq> CHR ''.'') (rev (butlast e) @ CHR ''.'' # rev base) = rev (butlast e)"
      using nd by (intro takeWhile_upto) auto
    then show ?thesis by (simp add: bl)
  qed
  then show ?thesis using assms bl
    by (simp add: ext_of_segment_def append_butlast_last_id)
qed

text \<open>
  File extensions: the extension of \<open>dir/base.ext\<close> is \<open>ext\<close> whenever
  \<open>ext\<close> is a non-empty name without dots, slashes or line breaks.
\<close>

theorem extNameFromUrl_file:
  assumes "CHR ''/'' \<notin> set base" and "e \<noteq> []" and "set e \<inter> {CHR ''.'', CHR ''/'', CHR 0x0A, CHR 0x0D} = {}"
    and "set base \<inter> {CHR 0x0A, CHR 0x0D} = {}"
  shows "extNameFromUrl (dir @ ''/'' @ base @ ''.'' @ e) = e"
proof -
  have "split_on CHR ''/'' (base @ ''.'' @ e) = [base @ ''.'' @ e]"
    using assms(1,3) by (intro split_on_no_sep) auto
  then have "last (split_on CHR ''/'' (dir @ ''/'' @ base @ ''.'' @ e)) = base @ ''.'' @ e"
    using split_on_append_sep_gen [of "CHR ''/''" dir "base @ ''.'' @ e"] by simp
  then show ?thesis using ext_of_segment_dot [OF assms(2) _ assms(4)] assms(3)
    by (simp add: extNameFromUrl_def)
qed

section \<open>\<open>_checkBool\<close>\<close>

text \<open>
  The values \<open>_checkBool\<close> distinguishes by \<open>typeof\<close> and \<open>instanceof\<close>: a function is
  represented by the value it returns when called, an array, map or set by its size,
  any other object by its number of own property names.
\<close>

datatype cbval = CNum real | CBig int | CBool bool | CFun cbval | CNull
  | CArr nat | CMapV nat | CSetV nat | CObj nat | CStr string | CSym | CUndef

text \<open>
  \<open>value == "0"\<close> compares the outer argument: when it is a string this is string
  equality, when it is a function (the only other case that reaches the string branch)
  it is false.
\<close>

fun loose_eq_str :: "cbval \<Rightarrow> string \<Rightarrow> bool" where
  "loose_eq_str (CStr s) t \<longleftrightarrow> s = t"
| "loose_eq_str _ t \<longleftrightarrow> False"

fun checker :: "cbval \<Rightarrow> cbval \<Rightarrow> bool" where
  "checker value (CNum x) \<longleftrightarrow> 0 < x"
| "checker value (CBig i) \<longleftrightarrow> 0 < i"
| "checker value (CBool b) \<longleftrightarrow> b"
| "checker value (CFun r) \<longleftrightarrow> checker value r"
| "checker value CNull \<longleftrightarrow> False"
| "checker value (CArr n) \<longleftrightarrow> 0 < n"
| "checker value (CMapV n) \<longleftrightarrow> 0 < n"
| "checker value (CSetV n) \<longleftrightarrow> 0 < n"
| "checker value (CObj n) \<longleftrightarrow> 0 < n"
| "checker value (CStr v) \<longleftrightarrow>
     \<not> (trim v = [] \<or> loose_eq_str value ''0'' \<or> loose_eq_str value ''false'' \<or> loose_eq_str value ''no'')"
| "checker value CSym \<longleftrightarrow> True"
| "checker value CUndef \<longleftrightarrow> False"

definition checkBool :: "cbval \<Rightarrow> bool" where
  "checkBool value = checker value value"

fun fun_wrap :: "nat \<Rightarrow> cbval \<Rightarrow> cbval" where
  "fun_wrap 0 v = v"
| "fun_wrap (Suc n) v = CFun (fun_wrap n v)"

lemma checker_fun_wrap: "checker value (fun_wrap n v) = checker value v"
  by (induction n) simp_all

lemma checkBool_string:
  "checkBool (CStr s) \<longleftrightarrow> trim s \<noteq> [] \<and> s \<notin> {''0'', ''false'', ''no''}"
  by (auto simp: checkBool_def)

text \<open>
  C27 (\<open>_checkBool\<close> compares the wrong value): for a function returning a
  string, the words \<open>"0"\<close>, \<open>"false"\<close> and \<open>"no"\<close> are compared with the
  function, not with the string, so only blank strings count as false.
\<close>

theorem checkBool_function_string:
  "checkBool (fun_wrap (Suc n) (CStr s)) \<longleftrightarrow> trim s \<noteq> []"
  by (simp add: checkBool_def checker_fun_wrap)

section \<open>\<open>objectGet\<close>\<close>

text \<open>
  Nested plain data: reading a property of \<open>undefined\<close> or \<open>null\<close> throws a
  \<open>TypeError\<close>, which \<open>objectGet\<close> catches and turns into \<open>undefined\<close>; a property
  of any other primitive reads as \<open>undefined\<close>.
\<close>

datatype oval = OUndef | ONull | OPrim string | OObj "(string \<times> oval) list"

fun get_prop :: "oval \<Rightarrow> string \<Rightarrow> oval option" where
  "get_prop OUndef p = None"
| "get_prop ONull p = None"
| "get_prop (OPrim s) p = Some OUndef"
| "get_prop (OObj ps) p = Some (case map_of ps p of Some v \<Rightarrow> v | None \<Rightarrow> OUndef)"

fun get_path :: "oval \<Rightarrow> string list \<Rightarrow> oval option" where
  "get_path o' [] = Some o'"
| "get_path o' (p # ps) = (case get_prop o' p of None \<Rightarrow> None | Some v \<Rightarrow> get_path v ps)"

definition objectGet :: "oval \<Rightarrow> string \<Rightarrow> oval" where
  "objectGet obj path = (case get_path obj (split_on CHR ''.'' path) of None \<Rightarrow> OUndef | Some v \<Rightarrow> v)"

lemma get_path_append:
  "get_path o' (ps @ qs) = (case get_path o' ps of None \<Rightarrow> None | Some v \<Rightarrow> get_path v qs)"
  by (induction o' ps rule: get_path.induct) (auto split: option.splits)

lemma get_path_undef: "qs \<noteq> [] \<Longrightarrow> get_path OUndef qs = None"
  by (cases qs) simp_all

text \<open>
  Path lookup composes: \<open>objectGet(o, "p.q")\<close> equals
  \<open>objectGet(objectGet(o, "p"), "q")\<close>, errors included.
\<close>

theorem objectGet_compose:
  "objectGet obj (p @ ''.'' @ q) = objectGet (objectGet obj p) q"
proof -
  have "split_on CHR ''.'' (p @ ''.'' @ q) = split_on CHR ''.'' p @ split_on CHR ''.'' q"
    using split_on_append_sep_gen [of "CHR ''.''" p q] by simp
  then show ?thesis
    using split_on_ne [of "CHR ''.''" q] get_path_undef [of "split_on CHR ''.'' q"]
    by (auto simp: objectGet_def get_path_append split: option.splits)
qed

section \<open>\<open>_delayCall\<close>\<close>

text \<open>
  The debounce wrapper: every call bumps \<open>callNum\<close> and arms a timer that remembers
  the number and the arguments; a timer runs \<open>fn\<close> only if no call came after its
  own. All timers have the same delay, so they fire in the order they were armed.
\<close>

record 'a debounce =
  callNum :: nat
  timers :: "(nat \<times> 'a) list"
  fired :: "'a list"

definition dc_call :: "'a \<Rightarrow> 'a debounce \<Rightarrow> 'a debounce" where
  "dc_call args s =
     (let curNum = Suc (callNum s) in s\<lparr>callNum := curNum, timers := timers s @ [(curNum, args)]\<rparr>)"

definition dc_fire :: "'a debounce \<Rightarrow> 'a debounce" where
  "dc_fire s =
     (case timers s of
        [] \<Rightarrow> s
      | (n, args) # rest \<Rightarrow>
          s\<lparr>timers := rest, fired := fired s @ (if callNum s = n then [args] else [])\<rparr>)"

datatype 'a dc_event = DCall 'a | DTick

fun dc_run :: "'a dc_event list \<Rightarrow> 'a debounce \<Rightarrow> 'a debounce" where
  "dc_run [] s = s"
| "dc_run (DCall a # evs) s = dc_run evs (dc_call a s)"
| "dc_run (DTick # evs) s = dc_run evs (dc_fire s)"

definition dc_inv :: "'a debounce \<Rightarrow> bool" where
  "dc_inv s \<longleftrightarrow> sorted_wrt (<) (map fst (timers s)) \<and> (\<forall>t \<in> set (timers s). fst t \<le> callNum s)"

lemma dc_inv_call: "dc_inv s \<Longrightarrow> dc_inv (dc_call a s)"
  by (auto simp: dc_inv_def dc_call_def sorted_wrt_append)

lemma dc_inv_fire: "dc_inv s \<Longrightarrow> dc_inv (dc_fire s)"
  by (auto simp: dc_inv_def dc_fire_def split: list.splits)

lemma dc_run_ticks:
  "timers s = ts \<Longrightarrow>
   dc_run (replicate (length ts) DTick) s =
     s\<lparr>timers := [], fired := fired s @ map snd (filter (\<lambda>t. fst t = callNum s) ts)\<rparr>"
proof (induction ts arbitrary: s)
  case (Cons t ts)
  obtain n a where t: "t = (n, a)" by fastforce
  have "dc_fire s = s\<lparr>timers := ts, fired := fired s @ (if callNum s = n then [a] else [])\<rparr>"
    using Cons.prems t by (simp add: dc_fire_def)
  then show ?case using Cons.IH [of "dc_fire s"] t by auto
qed simp

lemma dc_run_append: "dc_run (as @ bs) s = dc_run bs (dc_run as s)"
  by (induction as s rule: dc_run.induct) simp_all

lemma dc_run_calls:
  "xs \<noteq> [] \<Longrightarrow> \<exists>T. timers (dc_run (map DCall xs) s) = timers s @ T \<and> length T = length xs
     \<and> map snd (filter (\<lambda>t. fst t = callNum s + length xs) T) = [last xs]
     \<and> callNum (dc_run (map DCall xs) s) = callNum s + length xs
     \<and> fired (dc_run (map DCall xs) s) = fired s"
proof (induction xs arbitrary: s)
  case (Cons x xs)
  show ?case
  proof (cases "xs = []")
    case True
    then show ?thesis
      by (intro exI [of _ "[(Suc (callNum s), x)]"]) (simp add: dc_call_def)
  next
    case False
    obtain T where T: "timers (dc_run (map DCall xs) (dc_call x s)) = timers (dc_call x s) @ T"
      "length T = length xs"
      "map snd (filter (\<lambda>t. fst t = callNum (dc_call x s) + length xs) T) = [last xs]"
      "callNum (dc_run (map DCall xs) (dc_call x s)) = callNum (dc_call x s) + length xs"
      "fired (dc_run (map DCall xs) (dc_call x s)) = fired (dc_call x s)"
      using Cons.IH [OF False, of "dc_call x s"] by (elim exE conjE) simp
    have c: "callNum (dc_call x s) = Suc (callNum s)"
      "timers (dc_call x s) = timers s @ [(Suc (callNum s), x)]" "fired (dc_call x s) = fired s"
      by (simp_all add: dc_call_def Let_def)
    have p: "(\<lambda>t. fst t = callNum s + length (x # xs)) = (\<lambda>t. fst t = callNum (dc_call x s) + length xs)"
      using c(1) by simp
    have "Suc (callNum s) \<noteq> callNum s + length (x # xs)" using False by simp
    then have f: "map snd (filter (\<lambda>t. fst t = callNum s + length (x # xs)) ((Suc (callNum s), x) # T))
        = [last (x # xs)]"
      using T(3) False c(1) by (simp only: p filter.simps) simp
    show ?thesis
      using T(1,2,4,5) c f False by (intro exI [of _ "(Suc (callNum s), x) # T"]) simp
  qed
qed simp

text \<open>
  C29 (debounce): after a burst of calls to the wrapper returned by
  \<open>_delayCall\<close> and the firing of their timers, the wrapped function has run exactly
  once, with the arguments of the last call.
\<close>

theorem delayCall_last_call_fires:
  assumes "timers s = []" and "xs \<noteq> []"
  shows "fired (dc_run (map DCall xs @ replicate (length xs) DTick) s) = fired s @ [last xs]
    \<and> timers (dc_run (map DCall xs @ replicate (length xs) DTick) s) = []"
proof -
  let ?s1 = "dc_run (map DCall xs) s"
  obtain T where T: "timers ?s1 = T" "length T = length xs"
      "map snd (filter (\<lambda>t. fst t = callNum s + length xs) T) = [last xs]"
      "callNum ?s1 = callNum s + length xs" "fired ?s1 = fired s"
    using dc_run_calls [OF assms(2), of s] assms(1) by auto
  have "dc_run (replicate (length T) DTick) ?s1 =
      ?s1\<lparr>timers := [], fired := fired ?s1 @ map snd (filter (\<lambda>t. fst t = callNum ?s1) T)\<rparr>"
    by (rule dc_run_ticks [OF T(1)])
  then show ?thesis using T by (simp add: dc_run_append)
qed

section \<open>\<open>PromiseExt.once\<close>\<close>

text \<open>
  The memo of \<open>once(key, promiseFactory)\<close>: the first call for a key runs the factory
  and stores the promise it returns; later calls return the stored promise. A promise
  is identified by the number of the factory run that created it.
\<close>

record once_state =
  once_results :: "(string, nat) jsmap"
  factory_runs :: "string list"

definition once :: "string \<Rightarrow> once_state \<Rightarrow> nat \<times> once_state" where
  "once key s =
     (case map_of (once_results s) key of
        Some p \<Rightarrow> (p, s)
      | None \<Rightarrow>
          (let p = length (factory_runs s)
           in (p, s\<lparr>once_results := jm_set key p (once_results s),
                    factory_runs := factory_runs s @ [key]\<rparr>)))"

fun once_all :: "string list \<Rightarrow> once_state \<Rightarrow> nat list \<times> once_state" where
  "once_all [] s = ([], s)"
| "once_all (k # ks) s =
     (let (p, s1) = once k s; (ps, s2) = once_all ks s1 in (p # ps, s2))"

definition once_inv :: "once_state \<Rightarrow> bool" where
  "once_inv s \<longleftrightarrow> distinct (factory_runs s) \<and> set (factory_runs s) = fst ` set (once_results s)
     \<and> (\<forall>k p. map_of (once_results s) k = Some p \<longrightarrow> p < length (factory_runs s) \<and> factory_runs s ! p = k)"

lemma once_inv_once: "once_inv s \<Longrightarrow> once_inv (snd (once k s))"
proof (cases "map_of (once_results s) k")
  case None
  assume inv: "once_inv s"
  then have "k \<notin> set (factory_runs s)" using None
    by (auto simp: once_inv_def map_of_eq_None_iff)
  then show ?thesis using inv None
    by (fastforce simp: once_inv_def once_def Let_def nth_append split: if_splits)
qed (simp add: once_def)

text \<open>
  C30 (\<open>once\<close> runs each factory at most once): whatever sequence of keys is
  requested, the factory has run at most once per key.
\<close>

theorem once_factory_once:
  "once_inv s \<Longrightarrow> once_inv (snd (once_all ks s)) \<and> distinct (factory_runs (snd (once_all ks s)))"
proof (induction ks arbitrary: s)
  case (Cons k ks)
  from Cons.prems have "once_inv (snd (once k s))" by (rule once_inv_once)
  then show ?case using Cons.IH by (simp add: split_def Let_def)
qed (simp add: once_inv_def)

lemma once_same_promise:
  "fst (once k (snd (once k s))) = fst (once k s) \<and> snd (once k (snd (once k s))) = snd (once k s)"
  by (cases "map_of (once_results s) k") (simp_all add: once_def Let_def)

section \<open>\<open>_walkChild\<close>\<close>

text \<open>
  The element tree as a rose tree; \<open>_walkChild(elem, onChildElem, deep, parentFirst)\<close>
  visits the children of \<open>elem\<close> in document order, each before its own children when
  \<open>parentFirst\<close> holds and after them otherwise, descending only when \<open>deep\<close> holds.
  The sequence of visited elements is what the model returns.
\<close>

datatype 'a dom = DNode 'a "'a dom list"

fun walk :: "bool \<Rightarrow> bool \<Rightarrow> 'a dom list \<Rightarrow> 'a list" where
  "walk deep parentFirst [] = []"
| "walk deep parentFirst (DNode x cs # rest) =
     (if parentFirst then [x] else []) @ (if deep then walk deep parentFirst cs else [])
     @ (if parentFirst then [] else [x]) @ walk deep parentFirst rest"

definition walkChild :: "'a dom \<Rightarrow> bool \<Rightarrow> bool \<Rightarrow> 'a list" where
  "walkChild elem deep parentFirst = (case elem of DNode _ cs \<Rightarrow> walk deep parentFirst cs)"

text \<open>
  Both walk orders visit the same elements: \<open>_walkChild\<close> with
  \<open>parentFirst\<close> true and false visits the same multiset of elements.
\<close>

theorem walk_orders_permute:
  "mset (walkChild elem deep True) = mset (walkChild elem deep False)"
proof -
  have "mset (walk deep True cs) = mset (walk deep False cs)" for cs :: "'a dom list"
    by (induction deep True cs rule: walk.induct) simp_all
  then show ?thesis by (simp add: walkChild_def split: dom.splits)
qed

lemma walk_shallow:
  "walkChild (DNode r cs) False parentFirst = map (\<lambda>c. case c of DNode x _ \<Rightarrow> x) cs"
proof -
  have "walk False pf cs = map (\<lambda>c. case c of DNode x _ \<Rightarrow> x) cs" for pf and cs :: "'a dom list"
    by (induction False pf cs rule: walk.induct) simp_all
  then show ?thesis by (simp add: walkChild_def)
qed

end
