(* ===== verification/HtmlMeta.thy ===== *)
theory HtmlMeta
  imports Utils
begin

text \<open>
  The page configuration read from \<open><meta>\<close> elements (\<open>HtmlMeta.ts\<close>, class
  \<open>_HtmlMetaParser\<close>): the package root, the npm base URL, the registered modules and
  the page language, with \<open>rootUrl\<close>, \<open>_parseMetaModule\<close> and \<open>relPath\<close>. The page
  \<open>location\<close> and the developer overrides of \<open>Dev.ts\<close> (\<open>devConfig.pkgs\<close>) are
  inputs; a \<open><meta>\<close> element is its attribute list. \<open>decodeURI\<close> may throw, so the
  constructor returns an option.
\<close>

record npm_module =
  mod_name :: string
  mod_baseUrl :: string
  mod_files :: "string list"
  mod_deps :: "string list"
  mod_globalVar :: "string option"
  mod_preload :: bool
  mod_version :: "string option"
  mod_url :: "string option"
  mod_exportName :: "string option"
  mod_prefix :: "string option"
  mod_esm :: bool
  mod_cjs :: bool
  mod_amd :: bool
  mod_eval :: bool
  mod_cors :: bool

record location =
  loc_origin :: string
  loc_pathname :: string
  loc_protocol :: string
  loc_host :: string

record html_meta =
  meta_root :: "string option"
  meta_debug :: "string option"
  npmUrl :: string
  npmCors :: bool
  modules :: "(string, npm_module) jsmap"
  meta_lang :: "string option"

type_synonym meta_el = "(string, string) jsmap"

definition get_attr :: "meta_el \<Rightarrow> string \<Rightarrow> string option" where
  "get_attr el k = map_of el k"

definition has_attr :: "meta_el \<Rightarrow> string \<Rightarrow> bool" where
  "has_attr el k \<longleftrightarrow> k \<in> set (map fst el)"

text \<open>\<open>x || undefined\<close> on a string that may be \<open>null\<close> or \<open>undefined\<close>.\<close>

definition truthy :: "string option \<Rightarrow> string option" where
  "truthy x = (case x of Some s \<Rightarrow> if s = [] then None else Some s | None \<Rightarrow> None)"

definition starts_http :: "string \<Rightarrow> bool" where
  "starts_http s \<longleftrightarrow> starts_with s ''http://'' \<or> starts_with s ''https://''"

text \<open>\<open>location.pathname.replace(/^(.*\/).*?$/, "$1")\<close>: up to the last slash.\<close>

definition dirname_path :: "string \<Rightarrow> string" where
  "dirname_path p = (if CHR ''/'' \<in> set p then rev (dropWhile (\<lambda>c. c \<noteq> CHR ''/'') (rev p)) else p)"

definition rootUrl :: "location \<Rightarrow> html_meta \<Rightarrow> string \<Rightarrow> string option" where
  "rootUrl L M url =
     decodeURI
       (if starts_with url ''/'' \<or> starts_http url then url
        else (case meta_root M of
                Some r \<Rightarrow> joinUrl [Some r, Some url]
              | None \<Rightarrow> joinUrl [Some (loc_origin L @ dirname_path (loc_pathname L)), Some url]))"

definition split_list_attr :: "string option \<Rightarrow> string list option" where
  "split_list_attr a =
     (case truthy a of Some c \<Rightarrow> Some (filter (\<lambda>v. trim v \<noteq> []) (split_on CHR '';'' c)) | None \<Rightarrow> None)"

definition parseMetaModule ::
  "location \<Rightarrow> (string, string) jsmap \<Rightarrow> meta_el \<Rightarrow> html_meta \<Rightarrow> html_meta" where
  "parseMetaModule L dev el M =
     (case truthy (get_attr el ''pkg'') of
        None \<Rightarrow> M
      | Some pkg \<Rightarrow>
          (let version = truthy (get_attr el ''version'');
               prefix = truthy (get_attr el ''prefix'');
               url1 = (case truthy (map_of dev pkg) of Some d \<Rightarrow> Some d | None \<Rightarrow> get_attr el ''url'');
               url2 = (case truthy url1 of
                         Some u \<Rightarrow>
                           (let u1 = (if starts_with u ''/'' then loc_origin L @ u else u)
                            in Some (if starts_with u1 ''.''
                                     then joinUrl [Some (loc_origin L @ loc_pathname L), Some ''..'', Some u1]
                                     else u1))
                       | None \<Rightarrow> url1);
               cors = (if has_attr el ''cors''
                       then checkBool (CStr (case get_attr el ''cors'' of Some c \<Rightarrow> c | None \<Rightarrow> []))
                       else npmCors M);
               baseUrl = (case truthy url2 of
                            Some u \<Rightarrow> u
                          | None \<Rightarrow> joinUrl [Some (npmUrl M),
                                      Some (case version of Some v \<Rightarrow> pkg @ ''@'' @ v | None \<Rightarrow> pkg), prefix]);
               files = (case split_list_attr (get_attr el ''content'') of
                          Some fs \<Rightarrow> fs | None \<Rightarrow> [''index.js'']);
               m = \<lparr>mod_name = pkg, mod_baseUrl = baseUrl,
                    mod_files = map (\<lambda>v. joinUrl [Some baseUrl, Some v]) files,
                    mod_deps = (case split_list_attr (get_attr el ''deps'') of Some ds \<Rightarrow> ds | None \<Rightarrow> []),
                    mod_globalVar = truthy (get_attr el ''global''),
                    mod_preload = has_attr el ''preload'', mod_version = version, mod_url = url2,
                    mod_exportName = truthy (get_attr el ''export-name''), mod_prefix = prefix,
                    mod_esm = has_attr el ''esm'', mod_cjs = has_attr el ''cjs'',
                    mod_amd = has_attr el ''amd'', mod_eval = has_attr el ''eval'', mod_cors = cors\<rparr>
           in M\<lparr>modules := jm_set pkg m (modules M)\<rparr>))"

definition meta_init :: "location \<Rightarrow> html_meta" where
  "meta_init L = \<lparr>meta_root = None, meta_debug = None, npmUrl = loc_origin L @ ''/node_modules'',
     npmCors = False, modules = [], meta_lang = None\<rparr>"

text \<open>One iteration of the constructor's loop over the \<open><meta>\<close> elements.\<close>

definition meta_step ::
  "location \<Rightarrow> (string, string) jsmap \<Rightarrow> html_meta \<Rightarrow> meta_el \<Rightarrow> html_meta option" where
  "meta_step L dev M el =
     (let name = get_attr el ''name''; content = get_attr el ''content''
      in if name = Some ''root'' then
           Some (M\<lparr>meta_root :=
                    (case truthy (map_option trim content) of
                       Some r \<Rightarrow> Some (if starts_http r then r else npmUrl M @ r)
                     | None \<Rightarrow> None)\<rparr>)
         else if name = Some ''debug'' then
           Some (M\<lparr>meta_debug := truthy (map_option trim content)\<rparr>)
         else if name = Some ''npm'' then
           (case rootUrl L M (case truthy content of Some c \<Rightarrow> c | None \<Rightarrow> ''/node_modules'') of
              None \<Rightarrow> None
            | Some u \<Rightarrow>
                (let u1 = (if starts_http u then u
                           else if starts_with u ''/'' then loc_origin L @ u
                           else joinUrl [Some (loc_origin L @ dirname_path (loc_pathname L)), Some u]);
                     u2 = (if ends_with u1 ''/'' then u1 else u1 @ ''/'')
                 in Some (M\<lparr>npmUrl := u2, npmCors := has_attr el ''cors''\<rparr>)))
         else if name = Some ''module'' then Some (parseMetaModule L dev el M)
         else if name = Some ''lang'' then
           Some (M\<lparr>meta_lang := truthy (map_option (\<lambda>c. to_lower (trim c)) content)\<rparr>)
         else Some M)"

fun meta_fold ::
  "location \<Rightarrow> (string, string) jsmap \<Rightarrow> html_meta \<Rightarrow> meta_el list \<Rightarrow> html_meta option" where
  "meta_fold L dev M [] = Some M"
| "meta_fold L dev M (el # els) =
     (case meta_step L dev M el of None \<Rightarrow> None | Some M' \<Rightarrow> meta_fold L dev M' els)"

text \<open>
  Module initialisation: every enabled package of \<open>devConfig.pkgs\<close> gets a
  \<open>DEV\<close> URL and a \<open><meta name="module">\<close> element appended to the head, after the
  page's own elements; then the constructor reads them all.
\<close>

definition dev_urls :: "(string, bool \<times> string) jsmap \<Rightarrow> (string, string) jsmap" where
  "dev_urls pkgs = [(k, ''http://'' @ snd v). (k, v) \<leftarrow> pkgs, fst v]"

definition dev_metas :: "(string, string) jsmap \<Rightarrow> meta_el list" where
  "dev_metas dev = [[(''name'', ''module''), (''pkg'', k), (''url'', u)]. (k, u) \<leftarrow> dev]"

definition htmlMeta ::
  "location \<Rightarrow> (string, bool \<times> string) jsmap \<Rightarrow> meta_el list \<Rightarrow> html_meta option" where
  "htmlMeta L pkgs metas =
     (let dev = dev_urls pkgs in meta_fold L dev (meta_init L) (metas @ dev_metas dev))"

definition relPath :: "location \<Rightarrow> html_meta \<Rightarrow> string \<Rightarrow> string \<Rightarrow> string option \<Rightarrow> string" where
  "relPath L M component ext from =
     (case truthy from of
        Some f \<Rightarrow> joinUrl [Some (npmUrl M), Some f, Some (component @ ext)]
      | None \<Rightarrow>
          (case meta_root M of
             Some r \<Rightarrow> joinUrl [Some r, from, Some (component @ ext)]
           | None \<Rightarrow>
               joinUrl [Some (loc_protocol L @ ''//'' @ loc_host L @ loc_pathname L),
                        if ends_with (loc_pathname L) ''/'' then None else Some ''..'',
                        Some (component @ ext)]))"


subsection \<open>Properties\<close>

lemma ends_with_slash_fix: "ends_with (if ends_with u ''/'' then u else u @ ''/'') ''/''"
  by (auto simp: ends_with_def)

text \<open>
  C32 (the npm base ends with a slash): whenever a \<open><meta name="npm">\<close> element is
  read successfully, the npm base URL ends with \<open>/\<close>.
\<close>

theorem npm_meta_trailing_slash:
  assumes "get_attr el ''name'' = Some ''npm''" and "meta_step L dev M el = Some M'"
  shows "ends_with (npmUrl M') ''/''"
  using assms ends_with_slash_fix
  by (auto simp: meta_step_def Let_def split: option.splits)

text \<open>
  A relative root is glued to the npm base without a slash: a
  \<open><meta name="root">\<close> whose content is not an absolute \<open>http(s)\<close> URL is prefixed
  with the npm base URL by string concatenation; read first, with the default base
  \<open>origin/node_modules\<close>, the root \<open>app\<close> becomes \<open>origin/node_modulesapp\<close>.
\<close>

theorem root_meta_concat:
  assumes "trim c = c" and "c \<noteq> []" and "\<not> starts_http c"
  shows "meta_step L dev (meta_init L) [(''name'', ''root''), (''content'', c)]
           = Some ((meta_init L)\<lparr>meta_root := Some (loc_origin L @ ''/node_modules'' @ c)\<rparr>)"
  using assms by (simp add: meta_step_def get_attr_def truthy_def meta_init_def Let_def)

end
