(* ===== verification/WcTag.thy ===== *)
theory WcTag
  imports HtmlMeta
begin

text \<open>
  Custom-element tag names and the packages they load from (\<open>WcTag.ts\<close>):
  \<open>_buildTag\<close> encodes a package name and a component path into a tag,
  \<open>_parseTag\<close> decodes a tag (and the package of the referring component) back into
  the package, the component and the URL of its template, registering an unknown
  package in \<open>_htmlMeta.modules\<close>.
\<close>

definition kebabPkgName :: "string \<Rightarrow> string" where
  "kebabPkgName s = replace_first CHR ''@'' [] (replace_first CHR ''/'' ''-'' (replace_all CHR ''-'' ''_'' s))"

definition under_upper :: "string \<Rightarrow> string" where
  "under_upper s = concat (map (\<lambda>c. if is_upper c then [CHR ''_'', to_lower_c c] else [c]) s)"

definition kebabTag :: "string \<Rightarrow> string" where
  "kebabTag s = dropWhile (\<lambda>c. c = CHR ''_'') (under_upper s)"

text \<open>\<open>.replace(/_[a-z]/g, m => m[1].toUpperCase())\<close>, matches taken left to right.\<close>

fun camel_fix :: "string \<Rightarrow> string" where
  "camel_fix (x # c # r) =
     (if x = CHR ''_'' \<and> is_lower c then to_upper_c c # camel_fix r else x # camel_fix (c # r))"
| "camel_fix s = s"

definition fromKebabTag :: "string \<Rightarrow> string" where
  "fromKebabTag s =
     camel_fix (replace_all CHR ''-'' ''/'' (rev (dropWhile (\<lambda>c. c = CHR ''-'') (rev s))))"

record tag_info =
  ti_from :: string
  ti_url :: string
  ti_pkg :: string
  ti_component :: string
  ti_tag :: string

text \<open>
  \<open>from.match(/^(.*[a-z0-9])@(.+)$/)\<close>: the greedy first group ends at the last
  \<open>@\<close> that follows a lower-case letter or digit and is followed by at least one
  character; \<open>.\<close> does not match a line terminator.
\<close>

definition from_match :: "string \<Rightarrow> (string \<times> string) option" where
  "from_match f =
     (if CHR 0x0A \<in> set f \<or> CHR 0x0D \<in> set f then None
      else
        (let idxs = filter (\<lambda>i. f ! i = CHR ''@'' \<and> (is_lower (f ! (i - 1)) \<or> is_digit_char (f ! (i - 1))))
                      [1..<length f - 1]
         in if idxs = [] then None else Some (take (last idxs) f, drop (Suc (last idxs)) f)))"

definition module_version :: "html_meta \<Rightarrow> string \<Rightarrow> string option" where
  "module_version M pkg = (case map_of (modules M) pkg of Some m \<Rightarrow> mod_version m | None \<Rightarrow> None)"

definition parseTag ::
  "location \<Rightarrow> html_meta \<Rightarrow> string \<Rightarrow> string option \<Rightarrow> tag_info \<times> html_meta" where
  "parseTag L M tag from =
     (let sp1 = split_on CHR ''.'' (to_lower tag);
          (pkg, ver, component) =
            (if 1 < length sp1 then
               (let p0 = replace_all CHR ''_'' ''-'' (replace_all CHR ''-'' ''/'' (sp1 ! 0));
                    p = (if CHR ''/'' \<in> set p0 then CHR ''@'' # p0 else p0)
                in (Some p, module_version M p, fromKebabTag (sp1 ! 1)))
             else
               (case truthy from of
                  None \<Rightarrow> (None, None, fromKebabTag tag)
                | Some f \<Rightarrow>
                    (case from_match f of
                       Some (p, v) \<Rightarrow> (Some p, Some v, fromKebabTag tag)
                     | None \<Rightarrow> (Some f, module_version M f, fromKebabTag tag))))
      in case truthy pkg of
           None \<Rightarrow>
             (\<lparr>ti_from = [], ti_url = relPath L M component ''.html'' None, ti_pkg = [],
               ti_component = component, ti_tag = tag\<rparr>, M)
         | Some p \<Rightarrow>
             (let M' = (case map_of (modules M) p of
                          Some _ \<Rightarrow> M
                        | None \<Rightarrow>
                            M\<lparr>modules := jm_set p
                                 \<lparr>mod_name = p, mod_baseUrl = joinUrl [Some (npmUrl M), Some p],
                                  mod_files = [], mod_deps = [], mod_globalVar = None,
                                  mod_preload = False, mod_version = None, mod_url = None,
                                  mod_exportName = None, mod_prefix = None, mod_esm = False,
                                  mod_cjs = False, mod_amd = False, mod_eval = False,
                                  mod_cors = False\<rparr> (modules M)\<rparr>);
                  base = (case map_of (modules M') p of Some m \<Rightarrow> mod_baseUrl m | None \<Rightarrow> []);
                  url = joinUrl [Some base, Some (component @ ''.html'')];
                  tagPkg = (case truthy ver of Some v \<Rightarrow> p @ ''@'' @ v | None \<Rightarrow> p)
              in (\<lparr>ti_from = tagPkg, ti_url = url, ti_pkg = p, ti_component = component,
                   ti_tag = tag\<rparr>, M')))"

text \<open>\<open>.replace(/[\\/]/g, '-')\<close>: slashes and backslashes become dashes.\<close>

definition slash_dash :: "string \<Rightarrow> string" where
  "slash_dash t = map (\<lambda>ch. if ch = CHR ''/'' \<or> ch = CHR 0x5C then CHR ''-'' else ch) t"

definition buildTag :: "string option \<Rightarrow> string \<Rightarrow> string" where
  "buildTag pkg component =
     (let pkgPart = (case truthy pkg of Some p \<Rightarrow> kebabPkgName p | None \<Rightarrow> []);
          c = kebabTag component;
          tag = slash_dash (if pkgPart \<noteq> [] then pkgPart @ ''.'' @ c else c)
      in if CHR ''-'' \<in> set tag then tag else tag @ ''-'')"

text \<open>Well-formed package names and component paths for the round trip.\<close>

definition pkg_char :: "char \<Rightarrow> bool" where
  "pkg_char c \<longleftrightarrow> is_lower c \<or> is_digit_char c \<or> c = CHR ''-''"

text \<open>A scoped package name \<open>@scope/name\<close>.\<close>

definition scoped_ok :: "string \<Rightarrow> bool" where
  "scoped_ok p =
     (case p of
        [] \<Rightarrow> False
      | a # r \<Rightarrow>
          a = CHR ''@'' \<and>
          (let sc = takeWhile (\<lambda>c. c \<noteq> CHR ''/'') r; nm = drop (Suc (length sc)) r
           in sc \<noteq> [] \<and> nm \<noteq> [] \<and> length sc < length r
              \<and> list_all pkg_char sc \<and> list_all pkg_char nm))"

definition pkg_ok :: "string \<Rightarrow> bool" where
  "pkg_ok p \<longleftrightarrow> (p \<noteq> [] \<and> list_all pkg_char p) \<or> scoped_ok p"

definition comp_ok :: "string \<Rightarrow> bool" where
  "comp_ok c \<longleftrightarrow> (\<forall>ch \<in> set c. is_alnum ch \<or> ch = CHR ''/'')
     \<and> (c \<noteq> [] \<longrightarrow> \<not> is_upper (hd c) \<and> last c \<noteq> CHR ''/'')"


subsection \<open>Properties\<close>

lemma camel_fix_under_upper:
  "\<forall>ch \<in> set c. is_alnum ch \<or> ch = CHR ''/'' \<Longrightarrow> camel_fix (under_upper c) = c"
proof (induction c)
  case (Cons x r)
  then have IH: "camel_fix (under_upper r) = r" and x: "is_alnum x \<or> x = CHR ''/''" by auto
  have u: "under_upper (x # r) = (if is_upper x then [CHR ''_'', to_lower_c x] else [x]) @ under_upper r"
    by (simp add: under_upper_def)
  show ?case
  proof (cases "is_upper x")
    case True
    then show ?thesis using IH u is_lower_to_lower_c [OF True] lower_upper_c [OF True] by simp
  next
    case False
    have "x \<noteq> CHR ''_''" using x by (auto simp: is_alnum_def is_upper_def is_lower_def is_digit_char_def)
    then show ?thesis using IH u False by (cases "under_upper r") simp_all
  qed
qed (simp add: under_upper_def)

lemma set_under_upper:
  "ch \<in> set (under_upper c) \<Longrightarrow> \<forall>x \<in> set c. is_alnum x \<or> x = CHR ''/'' \<Longrightarrow>
     ch = CHR ''_'' \<or> ch = CHR ''/'' \<or> (is_alnum ch \<and> \<not> is_upper ch)"
  by (induction c) (auto simp: under_upper_def is_alnum_def to_lower_c_not_upper
      is_lower_to_lower_c split: if_splits)

lemma under_upper_chars:
  assumes "\<forall>x \<in> set c. is_alnum x \<or> x = CHR ''/''" and "ch \<in> set (under_upper c)"
  shows "ch \<noteq> CHR ''-'' \<and> ch \<noteq> CHR 0x5C \<and> ch \<noteq> CHR ''.'' \<and> \<not> is_upper ch"
  using set_under_upper [OF assms(2,1)]
  by (auto simp: is_alnum_def is_upper_def is_lower_def is_digit_char_def)

lemma kebabTag_comp: "comp_ok c \<Longrightarrow> kebabTag c = under_upper c"
proof (cases c)
  case (Cons x r)
  assume ok: "comp_ok c"
  then have "\<not> is_upper x" "x \<noteq> CHR ''_''" using Cons
    by (auto simp: comp_ok_def is_alnum_def is_upper_def is_lower_def is_digit_char_def)
  then show ?thesis using Cons by (simp add: kebabTag_def under_upper_def)
qed (simp add: kebabTag_def under_upper_def)

lemma last_under_upper:
  "comp_ok c \<Longrightarrow> c \<noteq> [] \<Longrightarrow> last (under_upper c) \<noteq> CHR ''/''"
proof (induction c rule: rev_induct)
  case (snoc x xs)
  have "last c \<noteq> CHR ''/''" if "comp_ok c" "c \<noteq> []" for c using that by (simp add: comp_ok_def)
  have "under_upper (xs @ [x]) = under_upper xs @ (if is_upper x then [CHR ''_'', to_lower_c x] else [x])"
    by (simp add: under_upper_def)
  moreover have "x \<noteq> CHR ''/''" using snoc.prems by (simp add: comp_ok_def)
  moreover have "to_lower_c x \<noteq> CHR ''/''" if "is_upper x"
    using is_lower_to_lower_c [OF that] by (auto simp: is_lower_def)
  ultimately show ?case by simp
qed simp

lemma replace_slash_dash:
  "\<forall>ch \<in> set u. ch \<noteq> CHR ''-'' \<and> ch \<noteq> CHR 0x5C \<Longrightarrow> replace_all CHR ''-'' ''/'' (slash_dash u) = u"
  by (induction u) (auto simp: replace_all_def slash_dash_def)

lemma strip_trailing:
  "(t = [] \<or> last t \<noteq> CHR ''-'') \<Longrightarrow> rev (dropWhile (\<lambda>c. c = CHR ''-'') (rev t)) = t"
  by (cases t rule: rev_cases) auto

lemma strip_trailing_dash:
  "(t = [] \<or> last t \<noteq> CHR ''-'') \<Longrightarrow> rev (dropWhile (\<lambda>c. c = CHR ''-'') (rev (t @ ''-''))) = t"
  by (cases t rule: rev_cases) auto

lemma fromKebabTag_component:
  assumes ok: "comp_ok c"
  shows "fromKebabTag (slash_dash (under_upper c)) = c
    \<and> fromKebabTag (slash_dash (under_upper c) @ ''-'') = c"
proof -
  let ?u = "under_upper c"
  have chars: "\<forall>ch \<in> set ?u. ch \<noteq> CHR ''-'' \<and> ch \<noteq> CHR 0x5C"
    using under_upper_chars ok by (auto simp: comp_ok_def)
  have lst: "slash_dash ?u = [] \<or> last (slash_dash ?u) \<noteq> CHR ''-''"
  proof (cases "c = []")
    case False
    then have "?u \<noteq> []" by (cases c) (auto simp: under_upper_def)
    then show ?thesis using last_under_upper [OF ok False] chars
      by (auto simp: slash_dash_def last_map)
  qed (simp add: under_upper_def slash_dash_def)
  have cf: "camel_fix ?u = c" using ok by (simp add: comp_ok_def camel_fix_under_upper)
  show ?thesis
    using strip_trailing [OF lst] strip_trailing_dash [OF lst] replace_slash_dash [OF chars] cf
    by (simp add: fromKebabTag_def)
qed

lemma scoped_ok_split:
  assumes "scoped_ok p"
  shows "\<exists>sc nm. p = CHR ''@'' # sc @ CHR ''/'' # nm \<and> sc \<noteq> [] \<and> nm \<noteq> []
           \<and> (\<forall>c \<in> set sc. pkg_char c) \<and> (\<forall>c \<in> set nm. pkg_char c)"
proof (cases p)
  case (Cons a r)
  let ?P = "\<lambda>c. c \<noteq> CHR ''/''"
  let ?sc = "takeWhile ?P r"
  have a: "a = CHR ''@''" and ne: "?sc \<noteq> []" "drop (Suc (length ?sc)) r \<noteq> []"
    and lt: "length ?sc < length r" and ok: "list_all pkg_char ?sc" "list_all pkg_char (drop (Suc (length ?sc)) r)"
    using assms Cons by (simp_all add: scoped_ok_def Let_def)
  have "r ! length ?sc = CHR ''/''" using nth_length_takeWhile [OF lt] by simp
  then have "drop (length ?sc) r = CHR ''/'' # drop (Suc (length ?sc)) r"
    using Cons_nth_drop_Suc [OF lt] by simp
  then have "r = ?sc @ CHR ''/'' # drop (Suc (length ?sc)) r"
    by (metis takeWhile_dropWhile_id dropWhile_eq_drop)
  then show ?thesis using Cons a ne ok by (intro exI [of _ ?sc] exI [of _ "drop (Suc (length ?sc)) r"])
      (simp add: list_all_iff)
qed (use assms in \<open>simp add: scoped_ok_def\<close>)

lemma pkg_ok_cases:
  "pkg_ok p \<Longrightarrow> (p \<noteq> [] \<and> (\<forall>c \<in> set p. pkg_char c))
     \<or> (\<exists>sc nm. p = CHR ''@'' # sc @ CHR ''/'' # nm \<and> sc \<noteq> [] \<and> nm \<noteq> []
           \<and> (\<forall>c \<in> set sc. pkg_char c) \<and> (\<forall>c \<in> set nm. pkg_char c))"
  unfolding pkg_ok_def using scoped_ok_split by (auto simp: list_all_iff)

lemma replace_all_append: "replace_all c r (xs @ ys) = replace_all c r xs @ replace_all c r ys"
  by (simp add: replace_all_def)

lemma replace_all_Cons: "replace_all c r (x # xs) = (if x = c then r else [x]) @ replace_all c r xs"
  by (simp add: replace_all_def)

lemma pkg_char_facts:
  "pkg_char ch \<Longrightarrow> ch \<noteq> CHR ''_'' \<and> ch \<noteq> CHR ''/'' \<and> ch \<noteq> CHR ''@'' \<and> ch \<noteq> CHR ''.''
     \<and> ch \<noteq> CHR 0x5C \<and> \<not> is_upper ch"
  unfolding pkg_char_def is_lower_def is_digit_char_def is_upper_def by auto

lemma underscore_not_upper: "\<not> is_upper CHR ''_''"
  by (simp add: is_upper_def)

lemma pkg_chars_replace:
  "\<forall>ch \<in> set x. pkg_char ch \<Longrightarrow>
     replace_all CHR ''_'' ''-'' (replace_all CHR ''-'' ''/'' (replace_all CHR ''-'' ''_'' x)) = x
   \<and> (\<forall>ch \<in> set (replace_all CHR ''-'' ''_'' x). ch \<noteq> CHR ''/'' \<and> ch \<noteq> CHR ''-'' \<and> ch \<noteq> CHR ''@''
        \<and> ch \<noteq> CHR ''.'' \<and> ch \<noteq> CHR 0x5C \<and> \<not> is_upper ch)"
proof (induction x)
  case (Cons y ys)
  then have IH: "replace_all CHR ''_'' ''-'' (replace_all CHR ''-'' ''/'' (replace_all CHR ''-'' ''_'' ys)) = ys
      \<and> (\<forall>ch \<in> set (replace_all CHR ''-'' ''_'' ys). ch \<noteq> CHR ''/'' \<and> ch \<noteq> CHR ''-'' \<and> ch \<noteq> CHR ''@''
        \<and> ch \<noteq> CHR ''.'' \<and> ch \<noteq> CHR 0x5C \<and> \<not> is_upper ch)"
    and f: "y \<noteq> CHR ''_'' \<and> y \<noteq> CHR ''/'' \<and> y \<noteq> CHR ''@'' \<and> y \<noteq> CHR ''.'' \<and> y \<noteq> CHR 0x5C \<and> \<not> is_upper y"
    using pkg_char_facts by auto
  show ?case
  proof (cases "y = CHR ''-''")
    case True
    then show ?thesis using IH underscore_not_upper by (simp add: replace_all_Cons replace_all_append)
  next
    case False
    then show ?thesis using IH f by (simp add: replace_all_Cons replace_all_append)
  qed
qed (simp add: replace_all_def)

lemma replace_first_at: "c \<notin> set xs \<Longrightarrow> replace_first c r (xs @ c # ys) = xs @ r @ ys"
  by (induction xs) auto

lemma kebabPkgName_decode:
  assumes "pkg_ok p"
  shows "(let q = replace_all CHR ''_'' ''-'' (replace_all CHR ''-'' ''/'' (kebabPkgName p))
          in if CHR ''/'' \<in> set q then CHR ''@'' # q else q) = p
    \<and> kebabPkgName p \<noteq> []
    \<and> (\<forall>ch \<in> set (kebabPkgName p). ch \<noteq> CHR ''/'' \<and> ch \<noteq> CHR ''.'' \<and> ch \<noteq> CHR 0x5C \<and> \<not> is_upper ch)"
  using pkg_ok_cases [OF assms]
proof (elim disjE exE conjE)
  assume ne: "p \<noteq> []" and pc: "\<forall>c \<in> set p. pkg_char c"
  let ?r = "replace_all CHR ''-'' ''_'' p"
  have d: "replace_all CHR ''_'' ''-'' (replace_all CHR ''-'' ''/'' ?r) = p"
    and ch: "\<forall>ch \<in> set ?r. ch \<noteq> CHR ''/'' \<and> ch \<noteq> CHR ''-'' \<and> ch \<noteq> CHR ''@''
        \<and> ch \<noteq> CHR ''.'' \<and> ch \<noteq> CHR 0x5C \<and> \<not> is_upper ch"
    using pkg_chars_replace [OF pc] by blast+
  have n1: "CHR ''/'' \<notin> set ?r" and n2: "CHR ''@'' \<notin> set ?r" and n3: "CHR ''-'' \<notin> set ?r"
    using ch by blast+
  have k: "kebabPkgName p = ?r"
    using n1 n2 by (simp add: kebabPkgName_def replace_first_absent)
  have "?r \<noteq> []" using ne by (cases p) (auto simp: replace_all_Cons)
  moreover have "CHR ''/'' \<notin> set p" using pc by (auto simp: pkg_char_def is_lower_def is_digit_char_def)
  ultimately show ?thesis using d ch k by (simp add: Let_def)
next
  fix sc nm
  assume p: "p = CHR ''@'' # sc @ CHR ''/'' # nm" and "sc \<noteq> []" "nm \<noteq> []"
    and sc: "\<forall>c \<in> set sc. pkg_char c" and nm: "\<forall>c \<in> set nm. pkg_char c"
  let ?sc = "replace_all CHR ''-'' ''_'' sc" and ?nm = "replace_all CHR ''-'' ''_'' nm"
  have dsc: "replace_all CHR ''_'' ''-'' (replace_all CHR ''-'' ''/'' ?sc) = sc"
    and csc: "\<forall>ch \<in> set ?sc. ch \<noteq> CHR ''/'' \<and> ch \<noteq> CHR ''-'' \<and> ch \<noteq> CHR ''@''
        \<and> ch \<noteq> CHR ''.'' \<and> ch \<noteq> CHR 0x5C \<and> \<not> is_upper ch"
    using pkg_chars_replace [OF sc] by blast+
  have dnm: "replace_all CHR ''_'' ''-'' (replace_all CHR ''-'' ''/'' ?nm) = nm"
    and cnm: "\<forall>ch \<in> set ?nm. ch \<noteq> CHR ''/'' \<and> ch \<noteq> CHR ''-'' \<and> ch \<noteq> CHR ''@''
        \<and> ch \<noteq> CHR ''.'' \<and> ch \<noteq> CHR 0x5C \<and> \<not> is_upper ch"
    using pkg_chars_replace [OF nm] by blast+
  have r: "replace_all CHR ''-'' ''_'' p = CHR ''@'' # ?sc @ CHR ''/'' # ?nm"
    by (simp add: p replace_all_Cons replace_all_append)
  have "CHR ''/'' \<notin> set (CHR ''@'' # ?sc)" using csc by auto
  then have "replace_first CHR ''/'' ''-'' (CHR ''@'' # ?sc @ CHR ''/'' # ?nm) = CHR ''@'' # ?sc @ CHR ''-'' # ?nm"
    using replace_first_at [of "CHR ''/''" "CHR ''@'' # ?sc" "''-''" ?nm] by simp
  then have k: "kebabPkgName p = ?sc @ CHR ''-'' # ?nm"
    by (simp add: kebabPkgName_def r)
  have "replace_all CHR ''-'' ''/'' (?sc @ CHR ''-'' # ?nm) =
      replace_all CHR ''-'' ''/'' ?sc @ CHR ''/'' # replace_all CHR ''-'' ''/'' ?nm"
    by (simp add: replace_all_append replace_all_Cons)
  then have d: "replace_all CHR ''_'' ''-'' (replace_all CHR ''-'' ''/'' (kebabPkgName p)) = sc @ CHR ''/'' # nm"
    using dsc dnm k by (simp add: replace_all_append replace_all_Cons)
  have "\<forall>ch \<in> set (kebabPkgName p). ch \<noteq> CHR ''/'' \<and> ch \<noteq> CHR ''.'' \<and> ch \<noteq> CHR 0x5C \<and> \<not> is_upper ch"
    using csc cnm k by (auto simp: is_upper_def)
  then show ?thesis using d k p by (simp add: Let_def)
qed

lemma slash_dash_append: "slash_dash (xs @ ys) = slash_dash xs @ slash_dash ys"
  by (simp add: slash_dash_def)

lemma slash_dash_id: "\<forall>ch \<in> set xs. ch \<noteq> CHR ''/'' \<and> ch \<noteq> CHR 0x5C \<Longrightarrow> slash_dash xs = xs"
  by (induction xs) (auto simp: slash_dash_def)

lemma set_slash_dash:
  "ch \<in> set (slash_dash u) \<Longrightarrow> ch = CHR ''-'' \<or> (ch \<in> set u \<and> ch \<noteq> CHR ''/'' \<and> ch \<noteq> CHR 0x5C)"
  by (auto simp: slash_dash_def split: if_splits)

lemma dash_not_upper: "\<not> is_upper CHR ''-''"
  by (simp add: is_upper_def)

lemma dot_not_upper: "\<not> is_upper CHR ''.''"
  by (simp add: is_upper_def)

lemma to_lower_id: "\<forall>ch \<in> set t. \<not> is_upper ch \<Longrightarrow> to_lower t = t"
  by (induction t) (simp_all add: to_lower_c_id)

lemma tail_chars:
  assumes "comp_ok c"
  shows "\<forall>ch \<in> set (slash_dash (under_upper c) @ ''-''). ch \<noteq> CHR ''.'' \<and> \<not> is_upper ch"
proof -
  have "\<forall>x \<in> set c. is_alnum x \<or> x = CHR ''/''" using assms by (simp add: comp_ok_def)
  then show ?thesis using under_upper_chars dash_not_upper
    by (fastforce dest: set_slash_dash)
qed

lemma parseTag_pkg:
  assumes "split_on CHR ''.'' (to_lower tag) = a # b # rest"
    and "(let p0 = replace_all CHR ''_'' ''-'' (replace_all CHR ''-'' ''/'' a)
          in if CHR ''/'' \<in> set p0 then CHR ''@'' # p0 else p0) = p"
    and "p \<noteq> []"
  shows "ti_pkg (fst (parseTag L M tag from)) = p \<and> ti_component (fst (parseTag L M tag from)) = fromKebabTag b"
  using assms by (simp add: parseTag_def Let_def truthy_def split: option.splits)

lemma parseTag_nopkg:
  assumes "split_on CHR ''.'' (to_lower tag) = [a]"
  shows "ti_pkg (fst (parseTag L M tag None)) = [] \<and> ti_component (fst (parseTag L M tag None)) = fromKebabTag tag"
  using assms by (simp add: parseTag_def Let_def truthy_def)

text \<open>
  C34 (tag round trip): a tag built by \<open>_buildTag\<close> from a well-formed npm package
  name (lower-case letters, digits and dashes, optionally scoped \<open>@scope/name\<close>)
  and a component path (letters, digits and slashes, not starting upper-case or ending
  in a slash) is parsed by \<open>_parseTag\<close> back into that package and component.
\<close>

theorem buildTag_parseTag:
  assumes "case pkg of None \<Rightarrow> True | Some p \<Rightarrow> pkg_ok p" and "comp_ok c"
  shows "ti_pkg (fst (parseTag L M (buildTag pkg c) None)) = (case pkg of None \<Rightarrow> [] | Some p \<Rightarrow> p)
    \<and> ti_component (fst (parseTag L M (buildTag pkg c) None)) = c"
proof -
  let ?u = "slash_dash (under_upper c)"
  have kc: "kebabTag c = under_upper c" using assms(2) by (rule kebabTag_comp)
  have tc: "\<forall>ch \<in> set (?u @ ''-''). ch \<noteq> CHR ''.'' \<and> \<not> is_upper ch" using tail_chars [OF assms(2)] .
  have fk: "fromKebabTag ?u = c" "fromKebabTag (?u @ ''-'') = c"
    using fromKebabTag_component [OF assms(2)] by simp_all
  show ?thesis
  proof (cases pkg)
    case None
    let ?t = "if CHR ''-'' \<in> set ?u then ?u else ?u @ ''-''"
    have b: "buildTag pkg c = ?t" using None kc by (simp add: buildTag_def truthy_def Let_def)
    have tc': "\<forall>ch \<in> set ?t. ch \<noteq> CHR ''.'' \<and> \<not> is_upper ch" using tc by auto
    have nd: "CHR ''.'' \<notin> set ?t" using tc' by blast
    have "to_lower ?t = ?t" using tc' by (intro to_lower_id) auto
    then have "split_on CHR ''.'' (to_lower ?t) = [?t]" using split_on_no_sep [OF nd] by simp
    then have "ti_pkg (fst (parseTag L M ?t None)) = [] \<and> ti_component (fst (parseTag L M ?t None)) = fromKebabTag ?t"
      by (rule parseTag_nopkg)
    moreover have "fromKebabTag ?t = c" using fk by simp
    ultimately show ?thesis using None b by simp
  next
    case (Some p)
    then have ok: "pkg_ok p" using assms(1) by simp
    let ?k = "kebabPkgName p"
    have kd: "(let q = replace_all CHR ''_'' ''-'' (replace_all CHR ''-'' ''/'' ?k)
               in if CHR ''/'' \<in> set q then CHR ''@'' # q else q) = p"
      and kne: "?k \<noteq> []"
      and kch: "\<forall>ch \<in> set ?k. ch \<noteq> CHR ''/'' \<and> ch \<noteq> CHR ''.'' \<and> ch \<noteq> CHR 0x5C \<and> \<not> is_upper ch"
      using kebabPkgName_decode [OF ok] by blast+
    have pne: "p \<noteq> []" using pkg_ok_cases [OF ok] by auto
    let ?tl = "if CHR ''-'' \<in> set (?k @ CHR ''.'' # ?u) then ?u else ?u @ ''-''"
    have sd: "slash_dash (?k @ ''.'' @ under_upper c) = ?k @ CHR ''.'' # ?u"
      using kch by (simp add: slash_dash_append slash_dash_id) (simp add: slash_dash_def)
    have "truthy pkg = Some p" using Some pne by (simp add: truthy_def)
    then have b0: "buildTag pkg c = (let tag = ?k @ CHR ''.'' # ?u in if CHR ''-'' \<in> set tag then tag else tag @ ''-'')"
      using kc kne sd unfolding buildTag_def Let_def by simp
    have b: "buildTag pkg c = ?k @ CHR ''.'' # ?tl"
      unfolding b0 Let_def by simp
    define t where "t = ?tl"
    have tl: "\<forall>ch \<in> set t. ch \<noteq> CHR ''.'' \<and> \<not> is_upper ch"
      unfolding t_def using tc by (simp split: if_split)
    have low: "to_lower (?k @ CHR ''.'' # t) = ?k @ CHR ''.'' # t"
    proof (rule to_lower_id)
      show "\<forall>ch \<in> set (?k @ CHR ''.'' # t). \<not> is_upper ch"
        using kch tl dot_not_upper by auto
    qed
    have nk: "CHR ''.'' \<notin> set ?k" and ntl: "CHR ''.'' \<notin> set t" using kch tl by blast+
    have sp: "split_on CHR ''.'' (to_lower (buildTag pkg c)) = [?k, t]"
      unfolding b t_def [symmetric] low using split_on_append_sep_gen [of "CHR ''.''" ?k t]
      by (simp add: split_on_no_sep [OF nk] split_on_no_sep [OF ntl])
    have "ti_pkg (fst (parseTag L M (buildTag pkg c) None)) = p
        \<and> ti_component (fst (parseTag L M (buildTag pkg c) None)) = fromKebabTag t"
      by (rule parseTag_pkg [OF sp kd pne])
    moreover have "fromKebabTag t = c" unfolding t_def using fk by simp
    ultimately show ?thesis using Some by simp
  qed
qed

end
