(* ===== verification/JsNum.thy ===== *)
theory JsNum
  imports Complex_Main JsString
begin

text \<open>
  JavaScript numbers and the number built-ins the colour plugin and the template data
  use: the values \<open>NaN\<close>, \<open>Infinity\<close> and \<open>-Infinity\<close> beside the finite numbers,
  the operators \<open>+ - * / %\<close>, the comparisons (false whenever \<open>NaN\<close> is involved),
  \<open>===\<close>, truthiness, \<open>Math.max\<close>/\<open>Math.min\<close>, \<open>parseFloat\<close> and \<open>parseInt\<close>.
  Finite numbers are reals: rounding to the nearest double, overflow of a literal to
  \<open>Infinity\<close> and the sign of zero are not modelled.
\<close>

datatype jsnum = NNum real | NNaN | NPosInf | NNegInf

definition inf_of :: "bool \<Rightarrow> jsnum" where
  "inf_of pos = (if pos then NPosInf else NNegInf)"

fun num_add :: "jsnum \<Rightarrow> jsnum \<Rightarrow> jsnum" where
  "num_add (NNum a) (NNum b) = NNum (a + b)"
| "num_add NNaN _ = NNaN"
| "num_add _ NNaN = NNaN"
| "num_add NPosInf NNegInf = NNaN"
| "num_add NNegInf NPosInf = NNaN"
| "num_add NPosInf _ = NPosInf"
| "num_add _ NPosInf = NPosInf"
| "num_add NNegInf _ = NNegInf"
| "num_add _ NNegInf = NNegInf"

fun num_neg :: "jsnum \<Rightarrow> jsnum" where
  "num_neg (NNum a) = NNum (- a)"
| "num_neg NNaN = NNaN"
| "num_neg NPosInf = NNegInf"
| "num_neg NNegInf = NPosInf"

definition num_sub :: "jsnum \<Rightarrow> jsnum \<Rightarrow> jsnum" where
  "num_sub a b = num_add a (num_neg b)"

fun num_mul :: "jsnum \<Rightarrow> jsnum \<Rightarrow> jsnum" where
  "num_mul (NNum a) (NNum b) = NNum (a * b)"
| "num_mul NNaN _ = NNaN"
| "num_mul _ NNaN = NNaN"
| "num_mul (NNum a) i = (if a = 0 then NNaN else inf_of ((0 < a) = (i = NPosInf)))"
| "num_mul i (NNum a) = (if a = 0 then NNaN else inf_of ((0 < a) = (i = NPosInf)))"
| "num_mul i j = inf_of (i = j)"

fun num_div :: "jsnum \<Rightarrow> jsnum \<Rightarrow> jsnum" where
  "num_div (NNum a) (NNum b) =
     (if b \<noteq> 0 then NNum (a / b) else if a = 0 then NNaN else inf_of (0 < a))"
| "num_div NNaN _ = NNaN"
| "num_div _ NNaN = NNaN"
| "num_div (NNum a) _ = NNum 0"
| "num_div i (NNum b) = inf_of ((0 \<le> b) = (i = NPosInf))"
| "num_div _ _ = NNaN"

text \<open>The integer part towards zero, as \<open>%\<close> uses it.\<close>

definition num_trunc :: "real \<Rightarrow> int" where
  "num_trunc x = (if 0 \<le> x then \<lfloor>x\<rfloor> else \<lceil>x\<rceil>)"

fun num_mod :: "jsnum \<Rightarrow> jsnum \<Rightarrow> jsnum" where
  "num_mod (NNum a) (NNum b) = (if b = 0 then NNaN else NNum (a - b * of_int (num_trunc (a / b))))"
| "num_mod (NNum a) NPosInf = NNum a"
| "num_mod (NNum a) NNegInf = NNum a"
| "num_mod _ _ = NNaN"

fun num_lt :: "jsnum \<Rightarrow> jsnum \<Rightarrow> bool" where
  "num_lt (NNum a) (NNum b) \<longleftrightarrow> a < b"
| "num_lt NNaN _ \<longleftrightarrow> False"
| "num_lt _ NNaN \<longleftrightarrow> False"
| "num_lt NNegInf NNegInf \<longleftrightarrow> False"
| "num_lt NNegInf _ \<longleftrightarrow> True"
| "num_lt NPosInf _ \<longleftrightarrow> False"
| "num_lt (NNum a) NPosInf \<longleftrightarrow> True"
| "num_lt (NNum a) NNegInf \<longleftrightarrow> False"

definition num_gt :: "jsnum \<Rightarrow> jsnum \<Rightarrow> bool" where
  "num_gt a b \<longleftrightarrow> num_lt b a"

text \<open>\<open>===\<close> on numbers: \<open>NaN\<close> equals nothing.\<close>

definition num_seq :: "jsnum \<Rightarrow> jsnum \<Rightarrow> bool" where
  "num_seq a b \<longleftrightarrow> a \<noteq> NNaN \<and> a = b"

definition num_truthy :: "jsnum \<Rightarrow> bool" where
  "num_truthy n \<longleftrightarrow> n \<noteq> NNaN \<and> n \<noteq> NNum 0"

definition num_max :: "jsnum \<Rightarrow> jsnum \<Rightarrow> jsnum" where
  "num_max a b = (if a = NNaN \<or> b = NNaN then NNaN else if num_lt a b then b else a)"

definition num_min :: "jsnum \<Rightarrow> jsnum \<Rightarrow> jsnum" where
  "num_min a b = (if a = NNaN \<or> b = NNaN then NNaN else if num_lt b a then b else a)"

subsection \<open>\<open>parseFloat\<close> and \<open>parseInt\<close>\<close>

text \<open>An optional sign in front of a numeral: \<open>True\<close> for \<open>-\<close>.\<close>

definition sign_split :: "string \<Rightarrow> bool \<times> string" where
  "sign_split t =
     (case t of
        c # r \<Rightarrow> if c = CHR ''-'' then (True, r) else if c = CHR ''+'' then (False, r) else (False, t)
      | [] \<Rightarrow> (False, []))"

definition digits_val :: "nat \<Rightarrow> (char \<Rightarrow> nat) \<Rightarrow> string \<Rightarrow> nat" where
  "digits_val R dv ds = foldl (\<lambda>n c. R * n + dv c) 0 ds"

definition dec_digit :: "char \<Rightarrow> nat" where
  "dec_digit c = of_char c - 48"

text \<open>The exponent part \<open>(e|E)[+-]?digits\<close>; without digits it is not part of the numeral.\<close>

definition exp_part :: "string \<Rightarrow> int" where
  "exp_part r =
     (case r of
        c # r' \<Rightarrow>
          if c = CHR ''e'' \<or> c = CHR ''E'' then
            (let (en, r'') = sign_split r'; ed = takeWhile is_digit_char r''
             in if ed = [] then 0
                else if en then - int (digits_val 10 dec_digit ed) else int (digits_val 10 dec_digit ed))
          else 0
      | [] \<Rightarrow> 0)"

definition scale10 :: "real \<Rightarrow> int \<Rightarrow> real" where
  "scale10 m e = (if 0 \<le> e then m * 10 ^ nat e else m / 10 ^ nat (- e))"

text \<open>
  \<open>parseFloat\<close>: leading white space is skipped, then the longest prefix that is a
  decimal literal (\<open>Infinity\<close>, digits with an optional fraction, or a fraction, with an
  optional exponent) is read; with no such prefix the result is \<open>NaN\<close>.
\<close>

definition parse_float :: "string \<Rightarrow> jsnum" where
  "parse_float s =
     (let (neg, u) = sign_split (dropWhile is_js_space s);
          sgn = (\<lambda>x. if neg then num_neg x else x)
      in if starts_with u ''Infinity'' then sgn NPosInf
         else
           (let ip = takeWhile is_digit_char u; r1 = dropWhile is_digit_char u;
                (fp, r2) = (case r1 of
                              c # r \<Rightarrow>
                                if c = CHR ''.'' then (takeWhile is_digit_char r, dropWhile is_digit_char r)
                                else ([], r1)
                            | [] \<Rightarrow> ([], []))
            in if ip = [] \<and> fp = [] then NNaN
               else sgn (NNum (scale10 (real (digits_val 10 dec_digit (ip @ fp)) / 10 ^ length fp)
                                 (exp_part r2)))))"

text \<open>The value of a digit in radix up to 36 (\<open>99\<close> for a character that is no digit).\<close>

definition radix_digit :: "char \<Rightarrow> nat" where
  "radix_digit c =
     (if is_digit_char c then of_char c - 48
      else if is_lower c then of_char c - 87
      else if is_upper c then of_char c - 55
      else 99)"

text \<open>
  \<open>parseInt(s, R)\<close>, with \<open>R = 0\<close> standing for an absent radix: white space, a sign,
  the prefix \<open>0x\<close> when the radix is absent or 16, then the longest run of digits of
  the radix; with no digit the result is \<open>NaN\<close>.
\<close>

definition parse_int :: "nat \<Rightarrow> string \<Rightarrow> jsnum" where
  "parse_int R s =
     (if R \<noteq> 0 \<and> (R < 2 \<or> 36 < R) then NNaN
      else
        (let (neg, u) = sign_split (dropWhile is_js_space s);
             hex = (take 2 u = ''0x'' \<or> take 2 u = ''0X'');
             R' = (if (R = 0 \<or> R = 16) \<and> hex then 16 else if R = 0 then 10 else R);
             u' = (if (R = 0 \<or> R = 16) \<and> hex then drop 2 u else u);
             ds = takeWhile (\<lambda>c. radix_digit c < R') u'
         in if ds = [] then NNaN
            else (let v = NNum (real (digits_val R' radix_digit ds)) in if neg then num_neg v else v)))"

text \<open>\<open>Number.prototype.toString\<close> on integers (the colour mode written to storage).\<close>

fun string_of_nat :: "nat \<Rightarrow> string" where
  "string_of_nat n =
     (if n < 10 then [char_of (48 + n)] else string_of_nat (n div 10) @ [char_of (48 + n mod 10)])"

declare string_of_nat.simps [simp del]

definition string_of_int :: "int \<Rightarrow> string" where
  "string_of_int i = (if i < 0 then ''-'' @ string_of_nat (nat (- i)) else string_of_nat (nat i))"

text \<open>A number within \<open>[lo, hi]\<close>, or \<open>NaN\<close>.\<close>

fun in_range :: "real \<Rightarrow> real \<Rightarrow> jsnum \<Rightarrow> bool" where
  "in_range lo hi (NNum r) \<longleftrightarrow> lo \<le> r \<and> r \<le> hi"
| "in_range lo hi NNaN \<longleftrightarrow> True"
| "in_range lo hi _ \<longleftrightarrow> False"


subsection \<open>Properties\<close>

lemma of_char_digit: "d < 10 \<Longrightarrow> (of_char (char_of (48 + d)) :: nat) = 48 + d"
  by (simp add: of_char_of)

lemma string_of_nat_digits: "\<forall>c \<in> set (string_of_nat n). is_digit_char c \<and> radix_digit c < 10"
proof (induction n rule: string_of_nat.induct)
  case (1 n)
  have d: "is_digit_char (char_of (48 + d)) \<and> radix_digit (char_of (48 + d)) < 10" if "d < 10" for d :: nat
    using of_char_digit [OF that] that by (simp add: is_digit_char_def radix_digit_def)
  show ?case using 1 d [of n] d [of "n mod 10"] by (subst string_of_nat.simps) auto
qed

lemma digits_val_snoc: "digits_val R dv (xs @ [c]) = R * digits_val R dv xs + dv c"
  by (simp add: digits_val_def)

lemma digits_val_string_of_nat: "digits_val 10 radix_digit (string_of_nat n) = n"
proof (induction n rule: string_of_nat.induct)
  case (1 n)
  have d: "radix_digit (char_of (48 + d)) = d" if "d < 10" for d :: nat
    using of_char_digit [OF that] that by (simp add: is_digit_char_def radix_digit_def)
  show ?case
  proof (cases "n < 10")
    case True
    then show ?thesis using d [OF True] by (subst string_of_nat.simps) (simp add: digits_val_def)
  next
    case False
    then show ?thesis using 1 d [of "n mod 10"] by (subst string_of_nat.simps) (simp add: digits_val_snoc)
  qed
qed

lemma string_of_nat_ne: "string_of_nat n \<noteq> []"
  by (subst string_of_nat.simps) simp

lemma parse_int_digits:
  assumes "\<forall>c \<in> set ds. is_digit_char c \<and> radix_digit c < 10" and "ds \<noteq> []"
  shows "parse_int 0 ds = NNum (real (digits_val 10 radix_digit ds))"
    and "parse_int 0 (CHR ''-'' # ds) = NNum (- real (digits_val 10 radix_digit ds))"
proof -
  obtain c r where ds: "ds = c # r" using assms(2) by (cases ds) auto
  have c: "is_digit_char c" using assms(1) ds by simp
  then have nsp: "\<not> is_js_space c" and nsg: "c \<noteq> CHR ''-''" "c \<noteq> CHR ''+''"
    by (auto simp: is_digit_char_def is_js_space_def)
  have dw: "dropWhile is_js_space ds = ds" using nsp ds by simp
  have dw2: "dropWhile is_js_space (CHR ''-'' # ds) = CHR ''-'' # ds" by (simp add: is_js_space_def)
  have ss: "sign_split ds = (False, ds)" using nsg ds by (simp add: sign_split_def)
  have ss2: "sign_split (CHR ''-'' # ds) = (True, ds)" by (simp add: sign_split_def)
  have nx: "\<not> (take 2 ds = ''0x'' \<or> take 2 ds = ''0X'')"
    using assms(1) ds by (cases r) (auto simp: is_digit_char_def)
  have tw: "takeWhile (\<lambda>c. radix_digit c < 10) ds = ds" using assms(1) by simp
  show "parse_int 0 ds = NNum (real (digits_val 10 radix_digit ds))"
    unfolding parse_int_def Let_def dw ss using nx assms(2) by (simp add: tw)
  show "parse_int 0 (CHR ''-'' # ds) = NNum (- real (digits_val 10 radix_digit ds))"
    unfolding parse_int_def Let_def dw2 ss2 using nx assms(2) by (simp add: tw)
qed

theorem parse_int_string_of_int: "parse_int 0 (string_of_int i) = NNum (of_int i)"
proof (cases "i < 0")
  case True
  then show ?thesis
    using parse_int_digits(2) [OF string_of_nat_digits string_of_nat_ne, of "nat (- i)"]
    by (simp add: string_of_int_def digits_val_string_of_nat)
next
  case False
  then show ?thesis
    using parse_int_digits(1) [OF string_of_nat_digits string_of_nat_ne, of "nat i"]
    by (simp add: string_of_int_def digits_val_string_of_nat)
qed

end
