(* ===== verification/Color.thy ===== *)
theory Color
  imports JsNum HtmlMeta
begin

text \<open>
  The colour plugin (\<open>plugins/$color.ts\<close>): the class \<open>Hsla\<close> with its normalising
  constructor, \<open>Hsla.from\<close> (hex, \<open>hsl()\<close>, \<open>hsla()\<close>, \<open>rgb()\<close>, \<open>rgba()\<close>),
  \<open>_rgbToHsl\<close>, the shifting methods and the level getters \<open>h1\<close> .. \<open>a9_\<close>, and the
  colour scheme: \<open>_loadColors\<close> (mode, palette from the \<open><meta name="colors">\<close>
  element and the stored colours, derived colours, dark mode) with \<open>set\<close>,
  \<open>setMode\<close> and \<open>switchMode\<close>. Numbers are \<open>jsnum\<close>s; \<open>localStorage\<close> is a record of
  the two keys the plugin uses, the stored colour map being the result of
  \<open>JSON.parse\<close> (an object of strings, or a value that makes the code throw).
\<close>

record hsla =
  hue :: jsnum
  sat :: jsnum
  lig :: jsnum
  alpha :: jsnum

definition range_n :: "jsnum \<Rightarrow> jsnum \<Rightarrow> jsnum" where
  "range_n n mx = (if num_lt n (NNum 0) then NNum 0 else if num_gt n mx then mx else n)"

text \<open>\<open>new Hsla($h, $s, $l, $a)\<close>.\<close>

definition mk_hsla :: "jsnum \<Rightarrow> jsnum \<Rightarrow> jsnum \<Rightarrow> jsnum \<Rightarrow> hsla" where
  "mk_hsla h s l a =
     \<lparr>hue = (if num_lt h (NNum 0) then num_add (NNum 360) (num_mod h (NNum 360))
            else if num_gt h (NNum 360) then num_mod h (NNum 360) else h),
      sat = range_n s (NNum 100), lig = range_n l (NNum 100), alpha = range_n a (NNum 100)\<rparr>"

definition rgbToHsl :: "jsnum \<Rightarrow> jsnum \<Rightarrow> jsnum \<Rightarrow> jsnum \<times> jsnum \<times> jsnum" where
  "rgbToHsl r0 g0 b0 =
     (let r = num_div r0 (NNum 255); g = num_div g0 (NNum 255); b = num_div b0 (NNum 255);
          mx = num_max (num_max r g) b; mn = num_min (num_min r g) b;
          l = num_div (num_add mx mn) (NNum 2);
          (h, s) =
            (if num_seq mx mn then (NNum 0, NNum 0)
             else
               (let d = num_sub mx mn;
                    s = (if num_gt l (NNum (1/2)) then num_div d (num_sub (num_sub (NNum 2) mx) mn)
                         else num_div d (num_add mx mn));
                    h = (if num_seq mx r then
                           num_add (num_div (num_sub g b) d) (if num_lt g b then NNum 6 else NNum 0)
                         else if num_seq mx g then num_add (num_div (num_sub b r) d) (NNum 2)
                         else if num_seq mx b then num_add (num_div (num_sub r g) d) (NNum 4)
                         else NNum 0)
                in (num_div h (NNum 6), s)))
      in (num_mul h (NNum 360), num_mul s (NNum 100), num_mul l (NNum 100)))"

definition hsla_default :: hsla where
  "hsla_default = mk_hsla (NNum 0) (NNum 70) (NNum 50) (NNum 100)"

text \<open>\<open>String.prototype.slice(i, j)\<close> for \<open>0 \<le> i \<le> j\<close>.\<close>

definition slice :: "nat \<Rightarrow> nat \<Rightarrow> string \<Rightarrow> string" where
  "slice i j s = take (j - i) (drop i s)"

definition or_zero :: "jsnum \<Rightarrow> jsnum" where
  "or_zero n = (if num_truthy n then n else NNum 0)"

definition from_rgb :: "jsnum \<Rightarrow> jsnum \<Rightarrow> jsnum \<Rightarrow> jsnum \<Rightarrow> hsla" where
  "from_rgb r g b a = (case rgbToHsl r g b of (h, s, l) \<Rightarrow> mk_hsla h s l a)"

text \<open>\<open>color.trim().match(/^([a-z]+)\((.+)\)$/)\<close>: the mode and the argument text.\<close>

definition color_match :: "string \<Rightarrow> (string \<times> string) option" where
  "color_match c =
     (let t = trim c; mode = takeWhile is_lower t; rest = dropWhile is_lower t
      in if mode \<noteq> [] \<and> rest \<noteq> [] \<and> hd rest = CHR ''('' \<and> 3 \<le> length rest
            \<and> last rest = CHR '')''
            \<and> CHR 0x0A \<notin> set (butlast (tl rest)) \<and> CHR 0x0D \<notin> set (butlast (tl rest))
         then Some (mode, butlast (tl rest)) else None)"

text \<open>\<open>parseFloat(sp[k])\<close>; an index past the end reads \<open>undefined\<close>, which parses as \<open>NaN\<close>.\<close>

definition arg_num :: "string list \<Rightarrow> nat \<Rightarrow> jsnum" where
  "arg_num sp k = parse_float (if k < length sp then sp ! k else ''undefined'')"

definition hsla_from :: "string \<Rightarrow> hsla" where
  "hsla_from color =
     (if starts_with color ''#'' then
        from_rgb (or_zero (parse_int 16 (slice 1 3 color))) (or_zero (parse_int 16 (slice 3 5 color)))
          (or_zero (parse_int 16 (slice 5 7 color))) (NNum 100)
      else
        (case color_match color of
           None \<Rightarrow> hsla_default
         | Some (mode, args) \<Rightarrow>
             (let sp = split_on CHR '','' args
              in if mode = ''hsl'' then mk_hsla (arg_num sp 0) (arg_num sp 1) (arg_num sp 2) (NNum 100)
                 else if mode = ''hsla'' then mk_hsla (arg_num sp 0) (arg_num sp 1) (arg_num sp 2) (arg_num sp 3)
                 else if mode = ''rgb'' then from_rgb (arg_num sp 0) (arg_num sp 1) (arg_num sp 2) (NNum 100)
                 else if mode = ''rgba'' then from_rgb (arg_num sp 0) (arg_num sp 1) (arg_num sp 2) (arg_num sp 3)
                 else hsla_default)))"

text \<open>The methods \<open>h\<close>, \<open>hh\<close>, \<open>s\<close>, \<open>ss\<close>, \<open>l\<close>, \<open>ll\<close>, \<open>a\<close>, \<open>aa\<close>; \<open>l\<close> reads the scheme's mode.\<close>

definition hsla_h :: "jsnum \<Rightarrow> hsla \<Rightarrow> hsla" where
  "hsla_h level c = mk_hsla (num_add (hue c) level) (sat c) (lig c) (alpha c)"

definition hsla_hh :: "jsnum \<Rightarrow> hsla \<Rightarrow> hsla" where
  "hsla_hh level c = mk_hsla level (sat c) (lig c) (alpha c)"

definition hsla_s :: "jsnum \<Rightarrow> hsla \<Rightarrow> hsla" where
  "hsla_s level c = mk_hsla (hue c) (num_add (sat c) level) (lig c) (alpha c)"

definition hsla_ss :: "jsnum \<Rightarrow> hsla \<Rightarrow> hsla" where
  "hsla_ss level c = mk_hsla (hue c) level (lig c) (alpha c)"

definition hsla_l :: "jsnum \<Rightarrow> jsnum \<Rightarrow> hsla \<Rightarrow> hsla" where
  "hsla_l mode level c =
     mk_hsla (hue c) (sat c) (num_add (lig c) (if num_truthy mode then num_neg level else level)) (alpha c)"

definition hsla_ll :: "jsnum \<Rightarrow> hsla \<Rightarrow> hsla" where
  "hsla_ll level c = mk_hsla (hue c) (sat c) level (alpha c)"

definition hsla_a :: "jsnum \<Rightarrow> hsla \<Rightarrow> hsla" where
  "hsla_a level c = mk_hsla (hue c) (sat c) (lig c) (num_add (alpha c) level)"

definition hsla_aa :: "jsnum \<Rightarrow> hsla \<Rightarrow> hsla" where
  "hsla_aa level c = mk_hsla (hue c) (sat c) (lig c) level"

text \<open>
  \<open>_initLevelColor\<close>: the getter \<open>k i p\<close> (\<open>k\<close> one of \<open>h s l a\<close>, \<open>i\<close> a digit
  1..9, \<open>p\<close> empty or \<open>_\<close>) calls the method \<open>k\<close> with step times \<open>i\<close>, negated for \<open>_\<close>;
  the step is 18 for the hue, 10 for the alpha and 5 otherwise.
\<close>

definition level_get :: "jsnum \<Rightarrow> string \<Rightarrow> hsla \<Rightarrow> hsla option" where
  "level_get mode name c =
     (case name of
        k # d # p \<Rightarrow>
          if k \<in> set ''hsla'' \<and> (49::nat) \<le> of_char d \<and> (of_char d :: nat) \<le> 57 \<and> (p = [] \<or> p = ''_'') then
            (let i = of_char d - (48::nat);
                 step = (if k = CHR ''h'' then 18 else if k = CHR ''a'' then 10 else 5::nat);
                 v = NNum ((if p = [] then 1 else -1) * real (step * i))
             in Some (if k = CHR ''h'' then hsla_h v c else if k = CHR ''s'' then hsla_s v c
                      else if k = CHR ''l'' then hsla_l mode v c else hsla_a v c))
          else None
      | _ \<Rightarrow> None)"

subsection \<open>The colour scheme\<close>

text \<open>
  The stored colours as \<open>JSON.parse\<close> returns them: absent (or empty), an object whose
  values are strings or something else (\<open>None\<close>: \<open>Hsla.from\<close> throws on it), or a
  value on which the code throws.
\<close>

datatype stored_colors = SCAbsent | SCObj "(string \<times> string option) list" | SCInvalid

record color_store =
  st_mode :: "string option"
  st_colors :: stored_colors

record color_schema =
  cs_mode :: jsnum
  cs_colors :: "(string, hsla) jsmap"

type_synonym palette = "(string, hsla option) jsmap"

definition init_palette :: palette where
  "init_palette =
     [(''pri'', Some (mk_hsla (NNum 220) (NNum 70) (NNum 50) (NNum 100))), (''sec'', None),
      (''info'', Some (mk_hsla (NNum 0) (NNum 0) (NNum 50) (NNum 100))),
      (''ok'', Some (mk_hsla (NNum 125) (NNum 70) (NNum 50) (NNum 100))),
      (''warn'', Some (mk_hsla (NNum 35) (NNum 70) (NNum 50) (NNum 100))),
      (''error'', Some (mk_hsla (NNum 0) (NNum 70) (NNum 50) (NNum 100))),
      (''none'', Some (mk_hsla (NNum 0) (NNum 0) (NNum 0) (NNum 0)))]"

text \<open>The mode: the stored mode read as \<open>parseInt(..) ? 1 : 0\<close>, else the meta's \<open>mode\<close>.\<close>

definition load_mode :: "jsnum \<Rightarrow> meta_el option \<Rightarrow> color_store \<Rightarrow> jsnum" where
  "load_mode m meta st =
     (case st_mode st of
        Some lm \<Rightarrow> (if num_truthy (parse_int 0 lm) then NNum 1 else NNum 0)
      | None \<Rightarrow>
          (case meta of
             Some el \<Rightarrow> parse_int 0 (case truthy (get_attr el ''mode'') of Some v \<Rightarrow> v | None \<Rightarrow> ''-1'')
           | None \<Rightarrow> m))"

definition meta_colors :: "meta_el \<Rightarrow> palette \<Rightarrow> palette" where
  "meta_colors el P =
     foldl (\<lambda>P (n, v). if n \<noteq> [] \<and> n \<noteq> ''mode'' \<and> n \<noteq> ''name'' then jm_set n (Some (hsla_from v)) P else P) P el"

text \<open>The stored colours, in key order; a value that is no string stops the loop.\<close>

fun local_colors :: "(string \<times> string option) list \<Rightarrow> palette \<Rightarrow> palette" where
  "local_colors [] P = P"
| "local_colors ((k, Some v) # kvs) P = local_colors kvs (jm_set k (Some (hsla_from v)) P)"
| "local_colors ((k, None) # kvs) P = P"

definition pal_get :: "palette \<Rightarrow> string \<Rightarrow> hsla option" where
  "pal_get P k = (case map_of P k of Some (Some c) \<Rightarrow> Some c | _ \<Rightarrow> None)"

definition pal_set :: "string \<Rightarrow> hsla \<Rightarrow> palette \<Rightarrow> palette" where
  "pal_set k c P = jm_set k (Some c) P"

text \<open>
  The derived colours: \<open>sec\<close>, \<open>text\<close> and \<open>bg\<close> when missing, the dark-mode
  inversion, then \<open>pria\<close>, \<open>seca\<close>, \<open>texta\<close>, \<open>textr\<close>, \<open>bga\<close> and \<open>bgr\<close>. \<open>pri\<close> is
  always present: the initial palette has it and every write stores a colour.
\<close>

definition derive_colors :: "jsnum \<Rightarrow> palette \<Rightarrow> palette" where
  "derive_colors mode P0 =
     (let pri = the (pal_get P0 ''pri'');
          P1 = (if pal_get P0 ''sec'' = None then pal_set ''sec'' (hsla_h (NNum 90) pri) P0 else P0);
          P2 = (if pal_get P1 ''text'' = None then pal_set ''text'' (hsla_ll (NNum 10) pri) P1 else P1);
          P3 = (if pal_get P2 ''bg'' = None then pal_set ''bg'' (hsla_ll (NNum 90) pri) P2 else P2);
          P4 = (if \<not> num_truthy mode then
                  (let bg = the (pal_get P3 ''bg''); bg' = hsla_ll (num_sub (NNum 100) (lig bg)) bg;
                       P' = pal_set ''bg'' bg' P3;
                       text = the (pal_get P' ''text'')
                   in pal_set ''text'' (hsla_ll (num_sub (NNum 100) (lig text)) bg') P')
                else P3);
          sec = the (pal_get P4 ''sec''); text = the (pal_get P4 ''text''); bg = the (pal_get P4 ''bg'');
          texta = hsla_h (NNum (-10)) (hsla_ss (NNum 50) text)
      in pal_set ''bgr'' (hsla_ll (num_sub (NNum 100) (lig bg)) bg)
          (pal_set ''bga'' (hsla_h (NNum (-10)) (hsla_ss (NNum 50) bg))
            (pal_set ''textr'' (hsla_ll (num_sub (NNum 100) (lig texta)) texta)
              (pal_set ''texta'' texta
                (pal_set ''seca'' (hsla_h (NNum (-24)) sec)
                  (pal_set ''pria'' (hsla_h (NNum (-24)) (the (pal_get P4 ''pri''))) P4))))))"

text \<open>\<open>Object.assign(_colorSchema.colors, load_colors)\<close>: keys of earlier loads stay.\<close>

definition assign_colors :: "(string, hsla) jsmap \<Rightarrow> palette \<Rightarrow> (string, hsla) jsmap" where
  "assign_colors C P = foldl (\<lambda>C (k, v). case v of Some c \<Rightarrow> jm_set k c C | None \<Rightarrow> C) C P"

definition loadColors :: "meta_el option \<Rightarrow> color_store \<Rightarrow> color_schema \<Rightarrow> color_schema" where
  "loadColors meta st cs =
     (let mode = load_mode (cs_mode cs) meta st;
          P1 = (case meta of Some el \<Rightarrow> meta_colors el init_palette | None \<Rightarrow> init_palette);
          P2 = (case st_colors st of SCObj kvs \<Rightarrow> local_colors kvs P1 | _ \<Rightarrow> P1)
      in \<lparr>cs_mode = mode, cs_colors = assign_colors (cs_colors cs) (derive_colors mode P2)\<rparr>)"

text \<open>\<open>set(colorName, hsl)\<close>: store the colour and reload; invalid stored JSON is removed.\<close>

definition color_set ::
  "meta_el option \<Rightarrow> string \<Rightarrow> string \<Rightarrow> color_store \<times> color_schema \<Rightarrow> color_store \<times> color_schema" where
  "color_set meta name hsl S =
     (case st_colors (fst S) of
        SCInvalid \<Rightarrow> ((fst S)\<lparr>st_colors := SCAbsent\<rparr>, snd S)
      | SCAbsent \<Rightarrow>
          (let st = (fst S)\<lparr>st_colors := SCObj [(name, Some hsl)]\<rparr> in (st, loadColors meta st (snd S)))
      | SCObj kvs \<Rightarrow>
          (let st = (fst S)\<lparr>st_colors := SCObj (jm_set name (Some hsl) kvs)\<rparr>
           in (st, loadColors meta st (snd S))))"

text \<open>\<open>setMode(mode)\<close> for an integer mode, and \<open>switchMode()\<close>.\<close>

definition setMode :: "meta_el option \<Rightarrow> int \<Rightarrow> color_store \<times> color_schema \<Rightarrow> color_store \<times> color_schema" where
  "setMode meta m S =
     (let st = (fst S)\<lparr>st_mode := Some (string_of_int m)\<rparr>
      in (st, loadColors meta st ((snd S)\<lparr>cs_mode := NNum (of_int m)\<rparr>)))"

definition switchMode :: "meta_el option \<Rightarrow> color_store \<times> color_schema \<Rightarrow> color_store \<times> color_schema" where
  "switchMode meta S =
     (let m = parse_int 0 (case st_mode (fst S) of Some v \<Rightarrow> if v = [] then ''0'' else v | None \<Rightarrow> ''0'')
      in setMode meta (if num_seq m (NNum 0) then 1 else 0) S)"

text \<open>The range the constructor promises: hue in \<open>[0, 360]\<close>, the rest in \<open>[0, 100]\<close>.\<close>

definition hsla_ok :: "hsla \<Rightarrow> bool" where
  "hsla_ok c \<longleftrightarrow> in_range 0 360 (hue c) \<and> in_range 0 100 (sat c) \<and> in_range 0 100 (lig c)
     \<and> in_range 0 100 (alpha c)"

definition pal_ok :: "palette \<Rightarrow> bool" where
  "pal_ok P \<longleftrightarrow> jm_all (pred_option hsla_ok) P"


subsection \<open>Properties\<close>

lemma range_n_bound: "0 \<le> m \<Longrightarrow> in_range 0 m (range_n n (NNum m))"
  by (cases n) (auto simp: range_n_def num_gt_def)

lemma js_mod_360_nonneg:
  assumes "0 \<le> r" shows "0 \<le> r - 360 * of_int (num_trunc (r / 360)) \<and> r - 360 * of_int (num_trunc (r / 360)) < 360"
proof -
  have t: "num_trunc (r / 360) = \<lfloor>r / 360\<rfloor>" using assms by (simp add: num_trunc_def)
  have "of_int \<lfloor>r / 360\<rfloor> \<le> r / 360" "r / 360 < of_int \<lfloor>r / 360\<rfloor> + 1" by linarith+
  then show ?thesis unfolding t by (simp add: field_simps)
qed

lemma js_mod_360_neg:
  assumes "r < 0" shows "-360 < r - 360 * of_int (num_trunc (r / 360)) \<and> r - 360 * of_int (num_trunc (r / 360)) \<le> 0"
proof -
  have t: "num_trunc (r / 360) = \<lceil>r / 360\<rceil>" using assms by (simp add: num_trunc_def)
  have a: "r / 360 \<le> of_int \<lceil>r / 360\<rceil>" by (rule le_of_int_ceiling)
  have b: "of_int \<lceil>r / 360\<rceil> < r / 360 + 1" by linarith
  have "r \<le> 360 * of_int \<lceil>r / 360\<rceil>" using mult_left_mono [OF a, of 360] by simp
  moreover have "360 * of_int \<lceil>r / 360\<rceil> < r + 360" using b by (simp add: field_simps)
  ultimately show ?thesis unfolding t by simp
qed

lemma hue_bound:
  "in_range 0 360 (if num_lt h (NNum 0) then num_add (NNum 360) (num_mod h (NNum 360))
                   else if num_gt h (NNum 360) then num_mod h (NNum 360) else h)"
proof (cases h)
  case (NNum r)
  show ?thesis
  proof (cases "r < 0")
    case True
    then show ?thesis using NNum js_mod_360_neg [OF True] by simp
  next
    case False
    then show ?thesis using NNum js_mod_360_nonneg [of r] by (auto simp: num_gt_def)
  qed
qed (simp_all add: num_gt_def)

lemma mk_hsla_ok: "hsla_ok (mk_hsla h s l a)"
  unfolding hsla_ok_def mk_hsla_def using hue_bound range_n_bound by simp


lemma hsla_methods_ok:
  "hsla_ok (hsla_h v c)" "hsla_ok (hsla_hh v c)" "hsla_ok (hsla_s v c)" "hsla_ok (hsla_ss v c)"
  "hsla_ok (hsla_l m v c)" "hsla_ok (hsla_ll v c)" "hsla_ok (hsla_a v c)" "hsla_ok (hsla_aa v c)"
  by (simp_all add: hsla_h_def hsla_hh_def hsla_s_def hsla_ss_def hsla_l_def hsla_ll_def hsla_a_def
      hsla_aa_def mk_hsla_ok)

lemma hsla_from_ok: "hsla_ok (hsla_from c)"
  by (auto simp: hsla_from_def from_rgb_def hsla_default_def mk_hsla_ok Let_def
      split: option.splits prod.splits)

lemma pal_ok_set: "pal_ok P \<Longrightarrow> hsla_ok c \<Longrightarrow> pal_ok (pal_set k c P)"
  by (simp add: pal_ok_def pal_set_def jm_all_jm_set)

lemma pal_ok_init: "pal_ok init_palette"
  by (simp add: pal_ok_def jm_all_def init_palette_def mk_hsla_ok)

lemma pal_ok_meta_colors: "pal_ok P \<Longrightarrow> pal_ok (meta_colors el P)"
proof (induction el arbitrary: P)
  case (Cons a el)
  obtain n v where a: "a = (n, v)" by fastforce
  have "pal_ok (if n \<noteq> [] \<and> n \<noteq> ''mode'' \<and> n \<noteq> ''name'' then jm_set n (Some (hsla_from v)) P else P)"
    using Cons.prems pal_ok_set [of P "hsla_from v" n] hsla_from_ok by (simp add: pal_set_def)
  then show ?case using Cons.IH by (simp add: meta_colors_def a)
qed (simp add: meta_colors_def)

lemma pal_ok_local_colors: "pal_ok P \<Longrightarrow> pal_ok (local_colors kvs P)"
  by (induction kvs P rule: local_colors.induct)
    (simp_all add: pal_ok_set [unfolded pal_set_def] hsla_from_ok)

lemma pal_ok_derive: "pal_ok P \<Longrightarrow> pal_ok (derive_colors mode P)"
  unfolding derive_colors_def Let_def
  by (simp add: pal_ok_set hsla_methods_ok)

lemma assign_colors_ok:
  "jm_all hsla_ok C \<Longrightarrow> pal_ok P \<Longrightarrow> jm_all hsla_ok (assign_colors C P)"
proof (induction P arbitrary: C)
  case (Cons a P)
  obtain k v where a: "a = (k, v)" by fastforce
  have "jm_all hsla_ok (case v of Some c \<Rightarrow> jm_set k c C | None \<Rightarrow> C)"
    using Cons.prems a by (auto simp: pal_ok_def jm_all_def intro: jm_all_jm_set [unfolded jm_all_def] split: option.splits)
  moreover have "pal_ok P" using Cons.prems by (simp add: pal_ok_def jm_all_def)
  ultimately show ?case using Cons.IH by (simp add: assign_colors_def a)
qed (simp add: assign_colors_def)

text \<open>
  C35 (colours stay in range): every colour of the scheme after \<open>_loadColors\<close> has a
  hue in \<open>[0, 360]\<close> and a saturation, lightness and alpha in \<open>[0, 100]\<close> (or is
  \<open>NaN\<close>, which an unparsable \<open>hsl()\<close> argument gives), whatever the meta element and
  the stored colours, provided the colours of earlier loads were.
\<close>

theorem loadColors_in_range:
  "jm_all hsla_ok (cs_colors cs) \<Longrightarrow> jm_all hsla_ok (cs_colors (loadColors meta st cs))"
  unfolding loadColors_def Let_def
  by (auto intro!: assign_colors_ok pal_ok_derive pal_ok_local_colors pal_ok_meta_colors pal_ok_init
      split: option.splits stored_colors.splits)

text \<open>
  Three-digit hex colours are misread: \<open>Hsla.from\<close> reads \<open>#fff\<close> as the
  bytes \<open>ff\<close>, \<open>f\<close> and nothing, i.e. \<open>rgb(255, 15, 0)\<close>, a saturated red of hue
  60/17, while \<open>#ffffff\<close> is white.
\<close>

theorem hex_shorthand_misread:
  "hsla_from ''#fff'' = mk_hsla (NNum (60 / 17)) (NNum 100) (NNum 50) (NNum 100)
   \<and> hsla_from ''#ffffff'' = mk_hsla (NNum 0) (NNum 0) (NNum 100) (NNum 100)"
  by (simp add: hsla_from_def starts_with_def slice_def parse_int_def sign_split_def is_js_space_def
      radix_digit_def is_digit_char_def is_lower_def is_upper_def digits_val_def or_zero_def num_truthy_def
      from_rgb_def rgbToHsl_def Let_def num_max_def num_min_def num_seq_def num_sub_def num_gt_def)

lemma pal_get_set [simp]: "pal_get (pal_set k c P) k' = (if k' = k then Some c else pal_get P k')"
  by (simp add: pal_get_def pal_set_def)

lemma dark_mode_text_from_bg:
  assumes "pal_get P ''text'' = Some t" and "pal_get P ''bg'' = Some b" and "pal_get P ''sec'' \<noteq> None"
  shows "pal_get (derive_colors (NNum 0) P) ''text''
           = Some (hsla_ll (num_sub (NNum 100) (lig t)) (hsla_ll (num_sub (NNum 100) (lig b)) b))"
  using assms by (simp add: derive_colors_def Let_def num_truthy_def)

lemma setMode_mode: "cs_mode (snd (setMode meta m S)) = (if m = 0 then NNum 0 else NNum 1)"
  by (simp add: setMode_def loadColors_def load_mode_def parse_int_string_of_int num_truthy_def Let_def)

end
