(* ===== verification/WcFor.thy ===== *)
theory WcFor
  imports JsNum Utils
begin

text \<open>
  List rendering of a component (\<open>Wc._apply$For\<close> and \<open>Wc._apply$If\<close> in \<open>Wc.ts\<close>).
  The children of the parent of a \<open>$for\<close> template are a list of element ids
  (\<open>fd_nodes\<close>, in document order); an element is an item of the \<open>$for\<close> template
  with eid \<open>f\<close> (attribute \<open>for-eid\<close>), the real element of the \<open>$if\<close> template with
  eid \<open>e\<close> (attribute \<open>if-eid\<close>, flagged when it is itself a template), or another
  element. An element's eid is its id. Every item has a scope holding its index and
  value; cloning the template's content allocates the next id. Text nodes between
  siblings are not represented: the code only inserts elements with \<open>after\<close>.
\<close>

text \<open>The index and the value an iteration of \<open>_forObjForEach\<close> passes to the callback.\<close>

datatype 'v fkey = KIdx nat | KVal 'v | KStr string
datatype 'v fval = VIdx nat | VVal 'v

datatype nkind = NItem nat | NReal nat bool | NOther

record 'v for_dom =
  fd_nodes :: "nat list"
  fd_kind :: "nat \<Rightarrow> nkind"
  fd_scope :: "nat \<Rightarrow> ('v fkey \<times> 'v fval) option"
  fd_next :: nat

text \<open>
  The value of \<open>$for\<close>: a number, an array, a \<open>Set\<close>, a \<open>Map\<close>, a plain object (its own
  enumerable keys in order), \<open>null\<close>, or anything else.
\<close>

datatype 'v forobj = FNum jsnum | FArr "'v list" | FSet "'v list" | FMap "('v \<times> 'v) list"
  | FObj "(string \<times> 'v) list" | FNull | FOther

text \<open>
  \<open>_forObjForEach\<close>: \<open>None\<close> when it does not return: \<open>for (i = 0; i < Infinity; i++)\<close>
  never ends, and \<open>Object.keys(null)\<close> throws.
\<close>

definition for_each :: "'v forobj \<Rightarrow> ('v fkey \<times> 'v fval) list option" where
  "for_each fo =
     (case fo of
        FNum (NNum r) \<Rightarrow> Some (map (\<lambda>i. (KIdx i, VIdx i)) [0..<nat \<lceil>r\<rceil>])
      | FNum NPosInf \<Rightarrow> None
      | FNum _ \<Rightarrow> Some []
      | FArr xs \<Rightarrow> Some (map (\<lambda>i. (KIdx i, VVal (xs ! i))) [0..<length xs])
      | FSet xs \<Rightarrow> Some (map (\<lambda>x. (KVal x, VVal x)) xs)
      | FMap kvs \<Rightarrow> Some (map (\<lambda>(k, v). (KVal k, VVal v)) kvs)
      | FObj kvs \<Rightarrow> Some (map (\<lambda>(k, v). (KStr k, VVal v)) kvs)
      | FNull \<Rightarrow> None
      | FOther \<Rightarrow> Some [])"

subsection \<open>Sorting\<close>

text \<open>
  The \<open>sort\<close> scope value: absent or falsy, an object of sort keys and directions, or
  another truthy value (read by \<open>_checkBool\<close>).
\<close>

datatype sortspec = SortAbsent | SortObj "(string \<times> jsnum) list" | SortPrim cbval

text \<open>
  The comparator of a sort object: every key is compared in turn and a key on which the
  items differ overwrites the result. \<open>get\<close> is \<open>objectGet\<close> on the items and \<open>lt\<close>
  the relational \<open><\<close> on the values it returns.
\<close>

definition cmp_step ::
  "('v \<Rightarrow> string \<Rightarrow> 'x) \<Rightarrow> ('x \<Rightarrow> 'x \<Rightarrow> bool) \<Rightarrow> 'v \<Rightarrow> 'v \<Rightarrow> int \<Rightarrow> string \<times> jsnum \<Rightarrow> int" where
  "cmp_step get lt a b ret kd =
     (case kd of
        (k, d) \<Rightarrow>
          let dir = num_gt d (NNum 0)
          in if lt (get a k) (get b k) then (if dir then -1 else 1)
             else if lt (get b k) (get a k) then (if dir then 1 else -1)
             else ret)"

definition sort_cmp ::
  "('v \<Rightarrow> string \<Rightarrow> 'x) \<Rightarrow> ('x \<Rightarrow> 'x \<Rightarrow> bool) \<Rightarrow> (string \<times> jsnum) list \<Rightarrow> 'v \<Rightarrow> 'v \<Rightarrow> int" where
  "sort_cmp get lt keys a b = foldl (cmp_step get lt a b) 0 keys"

text \<open>\<open>Array.prototype.sort\<close> with a comparator, as the stable insertion sort.\<close>

fun ins_cmp :: "('v \<Rightarrow> 'v \<Rightarrow> int) \<Rightarrow> 'v \<Rightarrow> 'v list \<Rightarrow> 'v list" where
  "ins_cmp c x [] = [x]"
| "ins_cmp c x (y # ys) = (if 0 < c y x then x # y # ys else y # ins_cmp c x ys)"

definition sort_by :: "('v \<Rightarrow> 'v \<Rightarrow> int) \<Rightarrow> 'v list \<Rightarrow> 'v list" where
  "sort_by c xs = foldl (\<lambda>acc x. ins_cmp c x acc) [] xs"

definition for_sorted ::
  "('v \<Rightarrow> string \<Rightarrow> 'x) \<Rightarrow> ('x \<Rightarrow> 'x \<Rightarrow> bool) \<Rightarrow> sortspec \<Rightarrow> 'v forobj \<Rightarrow> 'v forobj" where
  "for_sorted get lt sp fo =
     (case fo of
        FArr xs \<Rightarrow>
          (case sp of
             SortObj keys \<Rightarrow> FArr (sort_by (sort_cmp get lt keys) xs)
           | SortPrim v \<Rightarrow> if \<not> checkBool v then FArr (rev xs) else FArr xs
           | SortAbsent \<Rightarrow> FArr xs)
      | _ \<Rightarrow> fo)"

subsection \<open>The document\<close>

definition next_sib :: "nat list \<Rightarrow> nat \<Rightarrow> nat option" where
  "next_sib ns x = (case dropWhile (\<lambda>y. y \<noteq> x) ns of _ # z # _ \<Rightarrow> Some z | _ \<Rightarrow> None)"

text \<open>\<open>_getNextRealIfEl\<close>: the next sibling when it is the real element of \<open>x\<close>.\<close>

definition real_after :: "'v for_dom \<Rightarrow> nat \<Rightarrow> nat option" where
  "real_after S x =
     (case next_sib (fd_nodes S) x of
        Some r \<Rightarrow> (case fd_kind S r of NReal e _ \<Rightarrow> if e = x then Some r else None | _ \<Rightarrow> None)
      | None \<Rightarrow> None)"

fun ins_after :: "nat \<Rightarrow> nat \<Rightarrow> nat list \<Rightarrow> nat list" where
  "ins_after p x [] = []"
| "ins_after p x (y # ys) = (if y = p then y # x # ys else y # ins_after p x ys)"

text \<open>\<open>p.after(x)\<close>: \<open>x\<close> leaves its place and is inserted right after \<open>p\<close>.\<close>

definition move_after :: "nat \<Rightarrow> nat \<Rightarrow> nat list \<Rightarrow> nat list" where
  "move_after p x ns = ins_after p x (removeAll x ns)"

text \<open>\<open>_forElemList\<close>: the items of the template \<open>f\<close> in document order.\<close>

definition for_items :: "'v for_dom \<Rightarrow> nat \<Rightarrow> nat list" where
  "for_items S f = filter (\<lambda>x. fd_kind S x = NItem f) (fd_nodes S)"

text \<open>\<open>existedElemValueMap\<close>: index to item, a later item overwriting an earlier one.\<close>

definition index_map :: "'v for_dom \<Rightarrow> nat list \<Rightarrow> 'v fkey \<Rightarrow> nat option" where
  "index_map S L = foldl (\<lambda>m e. case fd_scope S e of Some (k, _) \<Rightarrow> m(k \<mapsto> e) | None \<Rightarrow> m) Map.empty L"

text \<open>The loop that builds \<open>calcedChildLiSt\<close>: reuse the item of an index, or clone a new one.\<close>

fun for_calc ::
  "nat \<Rightarrow> ('v fkey \<Rightarrow> nat option) \<Rightarrow> ('v fkey \<times> 'v fval) list \<Rightarrow> 'v for_dom \<Rightarrow> nat list \<times> 'v for_dom" where
  "for_calc f m [] S = ([], S)"
| "for_calc f m ((k, v) # kvs) S =
     (case m k of
        Some e \<Rightarrow>
          (let (es, S') = for_calc f m kvs (S\<lparr>fd_scope := (fd_scope S)(e \<mapsto> (k, v))\<rparr>) in (e # es, S'))
      | None \<Rightarrow>
          (let n = fd_next S;
               S1 = S\<lparr>fd_kind := (fd_kind S)(n := NItem f), fd_scope := (fd_scope S)(n \<mapsto> (k, v)),
                      fd_next := Suc n\<rparr>;
               (es, S') = for_calc f m kvs S1
           in (n # es, S')))"

text \<open>The filter over the old items: an item left out is removed, with its real element.\<close>

fun for_remove :: "nat list \<Rightarrow> nat list \<Rightarrow> 'v for_dom \<Rightarrow> 'v for_dom" where
  "for_remove C [] S = S"
| "for_remove C (e # es) S =
     (if e \<in> set C then for_remove C es S
      else
        (let ns = (case real_after S e of Some r \<Rightarrow> removeAll r (fd_nodes S) | None \<Rightarrow> fd_nodes S)
         in for_remove C es (S\<lparr>fd_nodes := removeAll e ns\<rparr>)))"

text \<open>
  The synchronising loop over \<open>calcedChildLiSt\<close>: \<open>L\<close> is \<open>existedForElemList\<close>, into
  which each element that is not already at its place is spliced; the element is moved
  after its predecessor, or after the predecessor's real element.
\<close>

fun for_sync :: "nat \<Rightarrow> nat \<Rightarrow> nat list \<Rightarrow> nat list \<Rightarrow> 'v for_dom \<Rightarrow> 'v for_dom" where
  "for_sync f i [] L S = S"
| "for_sync f i (el # es) L S =
     (let prev = (if 0 < i \<and> i - 1 < length L then L ! (i - 1) else f)
      in if i < length L \<and> L ! i = el then for_sync f (Suc i) es L S
         else
           (let tgt = (case real_after S prev of Some r \<Rightarrow> r | None \<Rightarrow> prev)
            in for_sync f (Suc i) es (take i L @ el # drop i L)
                 (S\<lparr>fd_nodes := move_after tgt el (fd_nodes S)\<rparr>)))"

text \<open>The body of \<open>_apply$For\<close> (run by the \<open>_delayCall\<close> wrapper it installs).\<close>

definition apply_for ::
  "('v \<Rightarrow> string \<Rightarrow> 'x) \<Rightarrow> ('x \<Rightarrow> 'x \<Rightarrow> bool) \<Rightarrow> nat \<Rightarrow> sortspec \<Rightarrow> 'v forobj \<Rightarrow> 'v for_dom
     \<Rightarrow> 'v for_dom option" where
  "apply_for get lt f sp fo S =
     (let existed = for_items S f; m = index_map S existed
      in case for_each (for_sorted get lt sp fo) of
           None \<Rightarrow> None
         | Some kvs \<Rightarrow>
             (let (C, S1) = for_calc f m kvs S;
                  S2 = for_remove C existed S1;
                  L = filter (\<lambda>e. e \<in> set C) existed
              in Some (for_sync f 0 C L S2)))"

text \<open>
  \<open>_apply$If\<close> on the template \<open>e\<close>: when the flag holds and the next element is not
  its real element, a clone is inserted after it; when the flag fails, its real element
  is removed unless that is a template.
\<close>

definition apply_if :: "nat \<Rightarrow> bool \<Rightarrow> bool \<Rightarrow> 'v for_dom \<Rightarrow> 'v for_dom" where
  "apply_if e is_tpl flag S =
     (let nxt = next_sib (fd_nodes S) e;
          shown = (case nxt of Some r \<Rightarrow> (case fd_kind S r of NReal e' _ \<Rightarrow> e' = e | _ \<Rightarrow> False) | None \<Rightarrow> False)
      in if flag then
           (if shown then S
            else (let n = fd_next S
                  in S\<lparr>fd_nodes := ins_after e n (fd_nodes S), fd_kind := (fd_kind S)(n := NReal e is_tpl),
                       fd_next := Suc n\<rparr>))
         else
           (case nxt of
              Some r \<Rightarrow> if shown \<and> fd_kind S r = NReal e False then S\<lparr>fd_nodes := removeAll r (fd_nodes S)\<rparr> else S
            | None \<Rightarrow> S))"

text \<open>
  The document a \<open>$for\<close> template \<open>f\<close> works in: distinct ids, \<open>f\<close> present and
  itself neither an item nor a real element, ids below the next fresh one, and no item
  of \<open>f\<close> before \<open>f\<close>.
\<close>

definition for_wf :: "'v for_dom \<Rightarrow> nat \<Rightarrow> bool" where
  "for_wf S f \<longleftrightarrow> distinct (fd_nodes S) \<and> f \<in> set (fd_nodes S) \<and> fd_kind S f = NOther
     \<and> (\<forall>x\<in>set (fd_nodes S). x < fd_next S)
     \<and> filter (\<lambda>x. x = f \<or> fd_kind S x = NItem f) (fd_nodes S) = f # for_items S f"


text \<open>
  A parent holding the \<open>$for\<close> template 0 and two items made from a \<open>Set\<close>, 1 (value 10)
  and 3 (value 20), each an \<open>$if\<close> template followed by its real element (2 and 4).
\<close>

definition ex_for_dom :: "nat for_dom" where
  "ex_for_dom = \<lparr>fd_nodes = [0, 1, 2, 3, 4],
     fd_kind = (\<lambda>x. if x = 1 \<or> x = 3 then NItem 0 else if x = 2 then NReal 1 False
                    else if x = 4 then NReal 3 False else NOther),
     fd_scope = (\<lambda>x. if x = 1 then Some (KVal 10, VVal 10) else if x = 3 then Some (KVal 20, VVal 20) else None),
     fd_next = 5\<rparr>"

subsection \<open>Properties\<close>

lemma filter_removeAll: "filter P (removeAll x ns) = removeAll x (filter P ns)"
  by (induction ns) auto

lemma filter_ins_after: "P p \<Longrightarrow> P x \<Longrightarrow> filter P (ins_after p x ns) = ins_after p x (filter P ns)"
  by (induction ns) auto

lemma ins_after_absent: "p \<notin> set ns \<Longrightarrow> ins_after p x ns = ns"
  by (induction ns) auto

lemma next_sib_Cons:
  "next_sib (y # ns) p = (if y = p then (case ns of z # _ \<Rightarrow> Some z | [] \<Rightarrow> None) else next_sib ns p)"
  by (simp add: next_sib_def split: list.splits)

lemma next_sib_set: "next_sib ns p = Some r \<Longrightarrow> r \<in> set ns"
  by (induction ns) (simp add: next_sib_def, auto simp: next_sib_Cons split: if_splits list.splits)

lemma filter_ins_after_adj:
  "P p \<Longrightarrow> \<not> P r \<Longrightarrow> P x \<Longrightarrow> distinct ns \<Longrightarrow> next_sib ns p = Some r \<Longrightarrow>
     filter P (ins_after r x ns) = ins_after p x (filter P ns)"
proof (induction ns)
  case (Cons y ns)
  show ?case
  proof (cases "y = p")
    case True
    then obtain zs where ns: "ns = r # zs" using Cons.prems(5) by (auto simp: next_sib_Cons split: list.splits)
    have "r \<noteq> p" using Cons.prems(1,2) by blast
    then show ?thesis using True ns Cons.prems(1-3) by simp
  next
    case False
    have "y \<noteq> r"
    proof
      assume "y = r"
      moreover have "r \<in> set ns" using Cons.prems(5) False next_sib_set [of ns p r]
        by (simp add: next_sib_Cons)
      ultimately show False using Cons.prems(4) by simp
    qed
    then show ?thesis using False Cons by (simp add: next_sib_Cons)
  qed
qed (simp add: next_sib_def)


lemma next_sib_removeAll:
  "distinct ns \<Longrightarrow> next_sib ns p = Some r \<Longrightarrow> x \<noteq> p \<Longrightarrow> x \<noteq> r \<Longrightarrow>
     next_sib (removeAll x ns) p = Some r"
proof (induction ns)
  case (Cons y ns)
  show ?case
  proof (cases "y = p")
    case True
    then obtain zs where "ns = r # zs" using Cons.prems(2) by (auto simp: next_sib_Cons split: list.splits)
    then show ?thesis using True Cons.prems(3,4) by (simp add: next_sib_Cons)
  next
    case False
    then show ?thesis using Cons by (auto simp: next_sib_Cons)
  qed
qed (simp add: next_sib_def)

lemma set_ins_after: "p \<in> set ns \<Longrightarrow> set (ins_after p x ns) = insert x (set ns)"
  by (induction ns) auto

lemma distinct_ins_after: "distinct ns \<Longrightarrow> x \<notin> set ns \<Longrightarrow> distinct (ins_after p x ns)"
proof (induction ns)
  case (Cons y ns)
  then show ?case by (cases "p \<in> set ns") (auto simp: set_ins_after ins_after_absent)
qed simp

lemma distinct_move_after: "distinct ns \<Longrightarrow> distinct (move_after p x ns)"
  by (simp add: move_after_def distinct_ins_after distinct_removeAll)

lemma set_move_after: "p \<in> set ns \<Longrightarrow> p \<noteq> x \<Longrightarrow> set (move_after p x ns) = insert x (set ns)"
  by (auto simp: move_after_def set_ins_after)

lemma filter_move_after:
  assumes "P p" "P x" "x \<noteq> p" "distinct ns"
    and "tgt = p \<or> (next_sib ns p = Some tgt \<and> \<not> P tgt)"
  shows "filter P (move_after tgt x ns) = move_after p x (filter P ns)"
  using assms(5)
proof
  assume "tgt = p"
  then show ?thesis using assms(1,2) by (simp add: move_after_def filter_ins_after filter_removeAll)
next
  assume a: "next_sib ns p = Some tgt \<and> \<not> P tgt"
  then have "x \<noteq> tgt" using assms(2) by blast
  then have "next_sib (removeAll x ns) p = Some tgt" using a assms(3,4) next_sib_removeAll by blast
  then show ?thesis using a assms(1-4)
    by (simp add: move_after_def filter_ins_after_adj distinct_removeAll filter_removeAll)
qed

lemma ins_after_last:
  "distinct xs \<Longrightarrow> xs \<noteq> [] \<Longrightarrow> ins_after (last xs) x (xs @ R) = xs @ x # R"
  by (induction xs) (auto simp: last_in_set)

lemma move_after_last:
  "distinct xs \<Longrightarrow> xs \<noteq> [] \<Longrightarrow> x \<notin> set xs \<Longrightarrow> move_after (last xs) x (xs @ R) = xs @ x # removeAll x R"
  by (simp add: move_after_def ins_after_last)


lemma for_sync_kind: "fd_kind (for_sync f i es L S) = fd_kind S \<and> fd_scope (for_sync f i es L S) = fd_scope S"
  by (induction f i es L S rule: for_sync.induct) (simp_all add: Let_def)

lemma real_after_adj:
  "real_after S p = Some r \<Longrightarrow> next_sib (fd_nodes S) p = Some r \<and> (\<exists>b. fd_kind S r = NReal p b)"
  by (auto simp: real_after_def split: option.splits nkind.splits if_splits)

lemma filter_drop_Suc:
  assumes "i < length C" "distinct C" "L ! i = C ! i" "i < length L" "distinct (drop i L)"
  shows "filter (\<lambda>x. x \<notin> set (take i C)) (drop i L)
           = C ! i # filter (\<lambda>x. x \<notin> set (take (Suc i) C)) (drop (Suc i) L)"
proof -
  have d: "drop i L = C ! i # drop (Suc i) L" using assms(3,4) Cons_nth_drop_Suc by metis
  have n1: "C ! i \<notin> set (take i C)" using assms(1,2) by (simp add: distinct_conv_nth in_set_conv_nth)
  have n2: "C ! i \<notin> set (drop (Suc i) L)" using assms(5) d by simp
  have t: "set (take (Suc i) C) = insert (C ! i) (set (take i C))" using assms(1) by (simp add: take_Suc_conv_app_nth)
  have "filter (\<lambda>x. x \<notin> set (take (Suc i) C)) (drop (Suc i) L) = filter (\<lambda>x. x \<notin> set (take i C)) (drop (Suc i) L)"
    using n2 t by (auto intro: filter_cong)
  then show ?thesis using d n1 by simp
qed


lemma removeAll_filter_not_in:
  "removeAll x (filter (\<lambda>y. y \<notin> A) xs) = filter (\<lambda>y. y \<notin> insert x A) xs"
  by (induction xs) auto

lemma for_sync_items:
  assumes "es = drop i C" and "distinct C" and "f \<notin> set C"
    and "\<forall>x\<in>set C. K x = NItem f" and "K f = NOther" and "fd_kind S = K"
    and "distinct (fd_nodes S)" and "take i L = take i C" and "i \<le> length L"
    and "distinct (drop i L)" and "set L \<subseteq> set C"
    and "filter (\<lambda>x. x = f \<or> K x = NItem f) (fd_nodes S)
           = f # take i C @ filter (\<lambda>x. x \<notin> set (take i C)) (drop i L)"
  shows "filter (\<lambda>x. x = f \<or> K x = NItem f) (fd_nodes (for_sync f i es L S)) = f # C
         \<and> distinct (fd_nodes (for_sync f i es L S))"
  using assms
proof (induction es arbitrary: i L S)
  case Nil
  then have tk: "take i C = C" by simp
  have "set (drop i L) \<subseteq> set C" using Nil.prems(11) set_drop_subset by fast
  then have "filter (\<lambda>x. x \<notin> set (take i C)) (drop i L) = []" unfolding tk by (auto simp: filter_empty_conv)
  then show ?case using Nil.prems(7,12) tk by simp
next
  case (Cons el es)
  let ?P = "\<lambda>x. x = f \<or> K x = NItem f"
  have i: "i < length C" using Cons.prems(1) by (metis drop_all list.distinct(1) not_le)
  have "el # es = C ! i # drop (Suc i) C" using Cons.prems(1) Cons_nth_drop_Suc [OF i] by simp
  then have el: "el = C ! i" and es: "es = drop (Suc i) C" by simp_all
  define prev where "prev = (if 0 < i \<and> i - 1 < length L then L ! (i - 1) else f)"
  have prev_last: "prev = last (f # take i C)"
  proof (cases "i = 0")
    case False
    then have "L ! (i - 1) = take i L ! (i - 1)" by simp
    also have "\<dots> = take i C ! (i - 1)" using Cons.prems(8) by simp
    also have "\<dots> = last (take i C)" using False i last_conv_nth [of "take i C"] by fastforce
    finally show ?thesis using False Cons.prems(9) i by (auto simp: prev_def)
  qed (simp add: prev_def)
  have dft: "distinct (f # take i C)" using Cons.prems(2,3) by (auto dest: in_set_takeD)
  have el_notin: "el \<notin> set (f # take i C)"
    using Cons.prems(2,3) el i by (auto simp: distinct_conv_nth in_set_conv_nth)
  have "el \<in> set C" using el i by simp
  then have Pel: "?P el" using Cons.prems(4) by blast
  have Pprev: "?P prev"
  proof (cases "take i C = []")
    case False
    then have "last (take i C) \<in> set (take i C)" by (rule last_in_set)
    then have "last (take i C) \<in> set C" by (rule in_set_takeD)
    then have "prev \<in> set C" using prev_last False by simp
    then show ?thesis using Cons.prems(4) by blast
  qed (simp add: prev_last)
  have el_ne: "el \<noteq> prev" using el_notin prev_last by (metis last_in_set list.distinct(1))
  show ?case
  proof (cases "i < length L \<and> L ! i = el")
    case True
    then have step: "for_sync f i (el # es) L S = for_sync f (Suc i) es L S" by simp
    have "take (Suc i) L = take (Suc i) C" using True Cons.prems(8) el i by (simp add: take_Suc_conv_app_nth)
    moreover have "distinct (drop (Suc i) L)"
      using Cons.prems(10) distinct_drop [of "drop i L" 1] by simp
    moreover have "filter ?P (fd_nodes S)
        = f # take (Suc i) C @ filter (\<lambda>x. x \<notin> set (take (Suc i) C)) (drop (Suc i) L)"
      using Cons.prems(12) filter_drop_Suc [OF i Cons.prems(2) _ _ Cons.prems(10)] True el i
      by (simp add: take_Suc_conv_app_nth)
    ultimately show ?thesis
      using Cons.IH [OF es Cons.prems(2-7) _ _ _ Cons.prems(11)] step True by simp
  next
    case False
    define tgt where "tgt = (case real_after S prev of Some r \<Rightarrow> r | None \<Rightarrow> prev)"
    define L' where "L' = take i L @ el # drop i L"
    define S' where "S' = S\<lparr>fd_nodes := move_after tgt el (fd_nodes S)\<rparr>"
    have step: "for_sync f i (el # es) L S = for_sync f (Suc i) es L' S'"
      unfolding for_sync.simps(2) Let_def prev_def [symmetric] tgt_def [symmetric] L'_def [symmetric]
        S'_def [symmetric] using False by auto
    have tg: "tgt = prev \<or> (next_sib (fd_nodes S) prev = Some tgt \<and> \<not> ?P tgt)"
    proof (cases "real_after S prev")
      case (Some r)
      then obtain b where "next_sib (fd_nodes S) prev = Some r" "fd_kind S r = NReal prev b"
        using real_after_adj by blast
      then show ?thesis using Some Cons.prems(5,6) by (auto simp: tgt_def)
    qed (simp add: tgt_def)
    have fm: "filter ?P (fd_nodes S') = move_after prev el (filter ?P (fd_nodes S))"
      using filter_move_after [OF Pprev Pel el_ne Cons.prems(7) tg] by (simp add: S'_def)
    have len: "length (take i L) = i" using Cons.prems(9) by simp
    have dL: "drop (Suc i) L' = drop i L" using len by (simp add: L'_def)
    have tC: "take (Suc i) C = take i C @ [el]" using el i by (simp add: take_Suc_conv_app_nth)
    have "filter ?P (fd_nodes S')
        = f # take (Suc i) C @ filter (\<lambda>x. x \<notin> set (take (Suc i) C)) (drop (Suc i) L')"
      using fm Cons.prems(12) move_after_last [OF dft _ el_notin, of "filter (\<lambda>x. x \<notin> set (take i C)) (drop i L)"]
        prev_last removeAll_filter_not_in [of el "set (take i C)" "drop i L"]
      by (simp add: dL tC)
    moreover have "take (Suc i) L' = take (Suc i) C" using len Cons.prems(8) tC by (simp add: L'_def)
    moreover have "Suc i \<le> length L'" using Cons.prems(9) by (simp add: L'_def)
    moreover have "distinct (drop (Suc i) L')" using Cons.prems(10) dL by simp
    moreover have "set L' \<subseteq> set C" using Cons.prems(11) el i
      by (auto simp: L'_def dest: in_set_takeD in_set_dropD)
    moreover have "distinct (fd_nodes S')" using Cons.prems(7) by (simp add: S'_def distinct_move_after)
    moreover have "fd_kind S' = K" using Cons.prems(6) by (simp add: S'_def)
    ultimately show ?thesis
      using Cons.IH [OF es Cons.prems(2-5)] step by simp
  qed
qed


lemma for_remove_state:
  "fd_kind (for_remove C es S) = fd_kind S \<and> fd_scope (for_remove C es S) = fd_scope S
   \<and> (distinct (fd_nodes S) \<longrightarrow> distinct (fd_nodes (for_remove C es S)))"
  by (induction C es S rule: for_remove.induct) (auto simp: Let_def distinct_removeAll split: option.splits)

lemma for_remove_items:
  assumes "fd_kind S = K" and "K f = NOther" and "f \<notin> set es"
    and "filter (\<lambda>x. x = f \<or> K x = NItem f) (fd_nodes S) = f # X"
  shows "filter (\<lambda>x. x = f \<or> K x = NItem f) (fd_nodes (for_remove C es S))
           = f # filter (\<lambda>x. x \<in> set C \<or> x \<notin> set es) X"
  using assms
proof (induction es arbitrary: S X)
  case Nil
  then show ?case by simp
next
  case (Cons e es)
  let ?P = "\<lambda>x. x = f \<or> K x = NItem f"
  show ?case
  proof (cases "e \<in> set C")
    case True
    then have "filter (\<lambda>x. x \<in> set C \<or> x \<notin> set es) X = filter (\<lambda>x. x \<in> set C \<or> x \<notin> set (e # es)) X"
      by (auto intro: filter_cong)
    then show ?thesis using Cons True by simp
  next
    case False
    define ns where "ns = (case real_after S e of Some r \<Rightarrow> removeAll r (fd_nodes S) | None \<Rightarrow> fd_nodes S)"
    have fns: "filter ?P ns = filter ?P (fd_nodes S)"
    proof (cases "real_after S e")
      case (Some r)
      then obtain b where "fd_kind S r = NReal e b" using real_after_adj by blast
      then have "\<not> ?P r" using Cons.prems(1,2) by auto
      then show ?thesis using Some by (simp add: ns_def filter_removeAll)
    qed (simp add: ns_def)
    have "e \<noteq> f" using Cons.prems(3) by simp
    then have "filter ?P (removeAll e ns) = f # removeAll e X"
      using fns Cons.prems(4) by (simp add: filter_removeAll)
    moreover have "filter (\<lambda>x. x \<in> set C \<or> x \<notin> set es) (removeAll e X)
        = filter (\<lambda>x. x \<in> set C \<or> x \<notin> set (e # es)) X"
      using False by (induction X) auto
    ultimately show ?thesis
      using Cons.IH [of "S\<lparr>fd_nodes := removeAll e ns\<rparr>" "removeAll e X"] Cons.prems(1-3) False
      by (simp add: ns_def Let_def)
  qed
qed


lemma for_calc_props:
  assumes "\<forall>k e. m k = Some e \<longrightarrow> e < fd_next S \<and> fd_kind S e = NItem f"
    and "\<forall>k1 k2 e. m k1 = Some e \<longrightarrow> m k2 = Some e \<longrightarrow> k1 = k2"
    and "distinct (map fst kvs)" and "for_calc f m kvs S = (C, S1)"
  shows "fd_nodes S1 = fd_nodes S \<and> fd_next S \<le> fd_next S1
    \<and> (\<forall>x < fd_next S. fd_kind S1 x = fd_kind S x)
    \<and> (\<forall>x. x \<notin> set C \<and> x < fd_next S \<longrightarrow> fd_scope S1 x = fd_scope S x)
    \<and> (\<forall>x\<in>set C. fd_kind S1 x = NItem f \<and> ((\<exists>k\<in>fst ` set kvs. m k = Some x) \<or> fd_next S \<le> x))
    \<and> distinct C \<and> map (\<lambda>x. the (fd_scope S1 x)) C = kvs"
  using assms
proof (induction kvs arbitrary: S C S1)
  case Nil
  then show ?case by simp
next
  case (Cons kv kvs)
  obtain k v where kv: "kv = (k, v)" by fastforce
  have kn: "k \<notin> fst ` set kvs" and dk: "distinct (map fst kvs)" using Cons.prems(3) kv by auto
  show ?case
  proof (cases "m k")
    case (Some e)
    define S' where "S' = S\<lparr>fd_scope := (fd_scope S)(e \<mapsto> (k, v))\<rparr>"
    obtain es where r: "for_calc f m kvs S' = (es, S1)" and C: "C = e # es"
      using Cons.prems(4) Some kv by (auto simp: S'_def split: prod.splits)
    have e: "e < fd_next S" "fd_kind S e = NItem f" using Cons.prems(1) Some by auto
    have IH: "fd_nodes S1 = fd_nodes S' \<and> fd_next S' \<le> fd_next S1
      \<and> (\<forall>x < fd_next S'. fd_kind S1 x = fd_kind S' x)
      \<and> (\<forall>x. x \<notin> set es \<and> x < fd_next S' \<longrightarrow> fd_scope S1 x = fd_scope S' x)
      \<and> (\<forall>x\<in>set es. fd_kind S1 x = NItem f \<and> ((\<exists>k\<in>fst ` set kvs. m k = Some x) \<or> fd_next S' \<le> x))
      \<and> distinct es \<and> map (\<lambda>x. the (fd_scope S1 x)) es = kvs"
      using Cons.IH [OF _ Cons.prems(2) dk r] Cons.prems(1) by (simp add: S'_def)
    have ne: "e \<notin> set es"
    proof
      assume "e \<in> set es"
      then have "(\<exists>k'\<in>fst ` set kvs. m k' = Some e) \<or> fd_next S' \<le> e" using IH by blast
      then have "(\<exists>k'\<in>fst ` set kvs. m k' = Some e) \<or> fd_next S \<le> e" by (simp add: S'_def)
      then show False using Cons.prems(2) Some kn e(1) by fastforce
    qed
    have "fd_scope S1 e = Some (k, v)" using IH ne e(1) by (simp add: S'_def)
    then show ?thesis using IH ne e Some kv C by (auto simp: S'_def)
  next
    case None
    define n where "n = fd_next S"
    define S' where "S' = S\<lparr>fd_kind := (fd_kind S)(n := NItem f), fd_scope := (fd_scope S)(n \<mapsto> (k, v)),
                         fd_next := Suc n\<rparr>"
    obtain es where r: "for_calc f m kvs S' = (es, S1)" and C: "C = n # es"
      using Cons.prems(4) None kv by (auto simp: S'_def n_def Let_def split: prod.splits)
    have IH: "fd_nodes S1 = fd_nodes S' \<and> fd_next S' \<le> fd_next S1
      \<and> (\<forall>x < fd_next S'. fd_kind S1 x = fd_kind S' x)
      \<and> (\<forall>x. x \<notin> set es \<and> x < fd_next S' \<longrightarrow> fd_scope S1 x = fd_scope S' x)
      \<and> (\<forall>x\<in>set es. fd_kind S1 x = NItem f \<and> ((\<exists>k\<in>fst ` set kvs. m k = Some x) \<or> fd_next S' \<le> x))
      \<and> distinct es \<and> map (\<lambda>x. the (fd_scope S1 x)) es = kvs"
    proof -
      have pre: "\<forall>k e. m k = Some e \<longrightarrow> e < fd_next S' \<and> fd_kind S' e = NItem f"
        using Cons.prems(1) by (fastforce simp: S'_def n_def)
      show ?thesis using Cons.IH [OF pre Cons.prems(2) dk r] .
    qed
    have ne: "n \<notin> set es"
    proof
      assume "n \<in> set es"
      then have "(\<exists>k'\<in>fst ` set kvs. m k' = Some n) \<or> fd_next S' \<le> n" using IH by blast
      then show False using Cons.prems(1) by (fastforce simp: S'_def n_def)
    qed
    have "fd_scope S1 n = Some (k, v)" "fd_kind S1 n = NItem f" using IH ne by (simp_all add: S'_def)
    then show ?thesis using IH ne kv C by (auto simp: S'_def n_def)
  qed
qed


lemma index_map_foldl:
  "foldl (\<lambda>m e. case fd_scope S e of Some (k, _) \<Rightarrow> m(k \<mapsto> e) | None \<Rightarrow> m) m0 L k = Some e \<Longrightarrow>
     m0 k = Some e \<or> (e \<in> set L \<and> (\<exists>v. fd_scope S e = Some (k, v)))"
proof (induction L arbitrary: m0)
  case (Cons a L)
  then show ?case by (fastforce split: option.splits if_splits)
qed simp

lemma index_map_some: "index_map S L k = Some e \<Longrightarrow> e \<in> set L \<and> (\<exists>v. fd_scope S e = Some (k, v))"
  using index_map_foldl [of S Map.empty L k e] by (simp add: index_map_def)

text \<open>
  C37 (list rendering refines the iteration): when \<open>_forObjForEach\<close> returns (the
  \<open>$for\<close> value is not \<open>null\<close> and not \<open>Infinity\<close>) with distinct indices, the
  items of the template after \<open>_apply$For\<close>, read in document order, carry exactly the
  index/value pairs of the iteration in its order, whatever items, real \<open>$if\<close>
  elements and other siblings the parent held before.
\<close>

theorem apply_for_refines:
  assumes wf: "for_wf S f" and fe: "for_each (for_sorted get lt sp fo) = Some kvs"
    and dk: "distinct (map fst kvs)"
  shows "\<exists>S'. apply_for get lt f sp fo S = Some S'
           \<and> map (\<lambda>e. the (fd_scope S' e)) (for_items S' f) = kvs"
proof -
  define existed where "existed = for_items S f"
  define m where "m = index_map S existed"
  have ex_nodes: "set existed \<subseteq> set (fd_nodes S)" by (auto simp: existed_def for_items_def)
  have ex_kind: "\<forall>x\<in>set existed. fd_kind S x = NItem f" by (simp add: existed_def for_items_def)
  have m1: "\<forall>k e. m k = Some e \<longrightarrow> e < fd_next S \<and> fd_kind S e = NItem f"
    using index_map_some [of S existed] ex_nodes ex_kind wf by (fastforce simp: m_def for_wf_def)
  have m2: "\<forall>k1 k2 e. m k1 = Some e \<longrightarrow> m k2 = Some e \<longrightarrow> k1 = k2"
  proof (intro allI impI)
    fix k1 k2 e assume "m k1 = Some e" "m k2 = Some e"
    then obtain v1 v2 where "fd_scope S e = Some (k1, v1)" "fd_scope S e = Some (k2, v2)"
      using index_map_some [of S existed] by (metis m_def)
    then show "k1 = k2" by simp
  qed
  obtain C S1 where calc: "for_calc f m kvs S = (C, S1)" by fastforce
  note c = for_calc_props [OF m1 m2 dk calc]
  define K where "K = fd_kind S1"
  let ?P = "\<lambda>x. x = f \<or> K x = NItem f"
  have fK: "K f = NOther" using c wf by (simp add: K_def for_wf_def)
  have same: "\<forall>x\<in>set (fd_nodes S). K x = fd_kind S x" using c wf by (simp add: K_def for_wf_def)
  have f1: "filter ?P (fd_nodes S1) = f # existed"
  proof -
    have "filter ?P (fd_nodes S) = filter (\<lambda>x. x = f \<or> fd_kind S x = NItem f) (fd_nodes S)"
      using same by (auto intro: filter_cong)
    then show ?thesis using c wf by (simp add: for_wf_def existed_def)
  qed
  have fC: "f \<notin> set C" and CK: "\<forall>x\<in>set C. K x = NItem f" using c fK by (auto simp: K_def)
  have fex: "f \<notin> set existed" using ex_kind wf by (auto simp: for_wf_def)
  define S2 where "S2 = for_remove C existed S1"
  define L where "L = filter (\<lambda>e. e \<in> set C) existed"
  have s2: "fd_kind S2 = K" "fd_scope S2 = fd_scope S1" "distinct (fd_nodes S2)"
    using for_remove_state [of C existed S1] c wf by (simp_all add: S2_def K_def for_wf_def)
  have f2: "filter ?P (fd_nodes S2) = f # L"
  proof -
    have "filter (\<lambda>x. x \<in> set C \<or> x \<notin> set existed) existed = L"
      by (auto simp: L_def intro: filter_cong)
    then show ?thesis using for_remove_items [of S1 K f existed existed C] f1 fK fex
      by (simp add: S2_def K_def)
  qed
  have dL: "distinct L" using wf by (simp add: L_def existed_def for_items_def for_wf_def)
  have sync: "filter ?P (fd_nodes (for_sync f 0 C L S2)) = f # C"
    using for_sync_items [of C 0 C f K S2 L] c fC CK fK s2 dL f2 by (auto simp: L_def)
  define S3 where "S3 = for_sync f 0 C L S2"
  have k3: "fd_kind S3 = K" "fd_scope S3 = fd_scope S1"
    using for_sync_kind [of f 0 C L S2] s2 by (simp_all add: S3_def)
  have "for_items S3 f = filter (\<lambda>x. K x = NItem f) (filter ?P (fd_nodes S3))"
    by (simp add: for_items_def k3 filter_filter) (meson)
  also have "\<dots> = C" using sync fK CK by (simp add: S3_def)
  finally have items: "for_items S3 f = C" .
  have "apply_for get lt f sp fo S = Some S3"
    using fe calc by (simp add: apply_for_def Let_def existed_def m_def S3_def S2_def L_def)
  then show ?thesis using items k3 c by simp
qed

lemma sort_cmp_ties:
  "\<forall>(k', d')\<in>set ks. \<not> lt (get a k') (get b k') \<and> \<not> lt (get b k') (get a k') \<Longrightarrow>
     foldl (cmp_step get lt a b) r ks = r"
  by (induction ks arbitrary: r) (auto simp: cmp_step_def)

text \<open>
  C38 (the last sort key decides): with a sort object, two items are ordered by the
  last key on which they differ, not by the first: a key on which they tie leaves the
  result, a key on which they differ overwrites it.
\<close>

theorem sort_cmp_last_key:
  assumes "\<forall>(k', d')\<in>set ks2. \<not> lt (get a k') (get b k') \<and> \<not> lt (get b k') (get a k')"
    and "lt (get a k) (get b k)"
  shows "sort_cmp get lt (ks1 @ (k, d) # ks2) a b = (if num_gt d (NNum 0) then -1 else 1)"
proof -
  have t: "foldl (cmp_step get lt a b) r ks2 = r" for r
    using assms(1) by (rule sort_cmp_ties)
  show ?thesis using assms(2) by (simp add: sort_cmp_def t cmp_step_def)
qed

lemma next_sib_ins_after: "distinct ns \<Longrightarrow> e \<in> set ns \<Longrightarrow> next_sib (ins_after e n ns) e = Some n"
  by (induction ns) (auto simp: next_sib_Cons)

lemma apply_if_shows:
  assumes "e \<in> set (fd_nodes S)" and "distinct (fd_nodes S)"
  shows "\<exists>r. real_after (apply_if e t True S) e = Some r"
proof (cases "\<exists>r b. next_sib (fd_nodes S) e = Some r \<and> fd_kind S r = NReal e b")
  case True
  then obtain r b where "next_sib (fd_nodes S) e = Some r" "fd_kind S r = NReal e b" by blast
  then show ?thesis by (simp add: apply_if_def real_after_def)
next
  case False
  then have "apply_if e t True S = S\<lparr>fd_nodes := ins_after e (fd_next S) (fd_nodes S),
      fd_kind := (fd_kind S)(fd_next S := NReal e t), fd_next := Suc (fd_next S)\<rparr>"
    by (auto simp: apply_if_def Let_def split: option.splits nkind.splits)
  then show ?thesis using next_sib_ins_after [OF assms(2,1)] by (simp add: real_after_def)
qed

text \<open>
  Items that an \<open>$if\<close> turned into a template pair are moved without their real
  element: reordering the \<open>Set\<close> of the example to \<open>{20, 10}\<close> moves item 3 in front of
  item 1, but its real element 4 stays behind 2, so the rendered content keeps the old order.
\<close>

lemma for_if_real_left_behind:
  "map_option fd_nodes (apply_for (\<lambda>v k. v) (<) 0 SortAbsent (FSet [20, 10]) ex_for_dom) = Some [0, 3, 1, 2, 4]"
  by (simp add: apply_for_def ex_for_dom_def for_items_def index_map_def for_each_def for_sorted_def
      real_after_def next_sib_def move_after_def Let_def)

end
