(* ===== verification/Router.thy ===== *)
theory Router
  imports Utils
begin

text \<open>
  Hash routing (\<open>Router.ts\<close>, class \<open>Router\<close>): a route maps route names (\<open>default\<close>
  for the unnamed one) to a tag and its attributes. \<open>parse\<close> reads a location hash
  \<open>#name:tag?a=1&b=2;tag2\<close> after \<open>decodeURIComponent\<close>, \<open>_buildHash\<close> merges a route
  into the current one and prints it, \<open>go\<close> sets the hash, and the \<open>hashchange\<close>
  handler parses the new hash back into \<open>route\<close>. The router's state is its route
  and the location hash; navigation to an absolute URL is an effect returned by \<open>go\<close>.
  Objects are association lists in insertion order: JavaScript lists keys that are
  array indices (\<open>"0"\<close>, \<open>"12"\<close>) first, which this model does not; the
  \<open>route-change\<close> event the listener dispatches and \<open>back\<close> are not modelled.
\<close>

record route_entry =
  r_tag :: string
  r_attrs :: "(string, string) jsmap"

type_synonym iroute = "(string, route_entry) jsmap"

record router =
  rt_route :: iroute
  rt_hash :: string

definition parse_attrs :: "string \<Rightarrow> (string, string) jsmap" where
  "parse_attrs pa =
     foldl (\<lambda>A w. if w = [] then A
                    else (let sp4 = split_on CHR ''='' w
                          in jm_set (to_lower (hd sp4)) (if 1 < length sp4 then sp4 ! 1 else []) A))
       [] (split_on CHR ''&'' pa)"

definition parseNamedPart :: "string \<Rightarrow> string \<times> route_entry" where
  "parseNamedPart part =
     (let sp1 = split_on CHR '':'' part;
          name0 = (if 1 < length sp1 then sp1 ! 0 else []);
          name = (if name0 = [] then ''default'' else name0);
          partTag = (if 1 < length sp1 then sp1 ! 1 else part);
          sp2 = split_on CHR ''?'' partTag;
          tag = to_lower (sp2 ! 0);
          attrs = (if 1 < length sp2 \<and> sp2 ! 1 \<noteq> [] then parse_attrs (sp2 ! 1) else [])
      in (name, \<lparr>r_tag = tag, r_attrs = attrs\<rparr>))"

text \<open>\<open>parse\<close>: \<open>None\<close> when \<open>decodeURIComponent\<close> throws.\<close>

definition parse :: "string \<Rightarrow> iroute option" where
  "parse loc =
     (case decodeURIComponent (if starts_with loc ''#'' then tl loc else loc) of
        None \<Rightarrow> None
      | Some h \<Rightarrow>
          Some (foldl (\<lambda>r v. case parseNamedPart v of (n, e) \<Rightarrow> jm_set n e r) [] (split_on CHR '';'' h)))"

definition merge_route :: "iroute \<Rightarrow> iroute \<Rightarrow> iroute" where
  "merge_route cfg R = foldl (\<lambda>R (k, v). if k \<noteq> [] then jm_set k v R else jm_set ''default'' v R) R cfg"

text \<open>The attribute loop: \<open>?\<close> before the first attribute, \<open>&\<close> before the others.\<close>

definition attrs_str :: "(string, string) jsmap \<Rightarrow> string" where
  "attrs_str atts =
     (if atts = [] then [] else CHR ''?'' # join_with ''&'' (map (\<lambda>(k, v). k @ ''='' @ v) atts))"

definition part_str :: "string \<Rightarrow> route_entry \<Rightarrow> string" where
  "part_str n e =
     (let n' = (if n = ''default'' then [] else n)
      in (if n' \<noteq> [] then n' @ '':'' else []) @ r_tag e @ attrs_str (r_attrs e))"

definition hash_str :: "iroute \<Rightarrow> string" where
  "hash_str R = join_with '';'' (map (\<lambda>(n, e). part_str n e) R)"

text \<open>
  Setting \<open>location.hash\<close> to \<open>h\<close> reads back as \<open>#h\<close>, and as the empty string when
  \<open>h\<close> is empty.
\<close>

definition hash_of :: "string \<Rightarrow> string" where
  "hash_of h = (if h = [] then [] else CHR ''#'' # h)"

text \<open>\<open>_buildHash\<close>: the merged route (stored in \<open>this.route\<close>) and the encoded hash.\<close>

definition buildHash :: "iroute \<Rightarrow> iroute \<Rightarrow> string \<times> iroute" where
  "buildHash cfg R = (let R' = merge_route cfg R in (encodeURIComponent (hash_str R'), R'))"

text \<open>
  \<open>go\<close>'s arguments: a string (a URL, or a hash to parse), a route object, a name and a
  tag, a tag and its attributes, all three, or arguments of other types (\<open>GoBad\<close>, the
  two \<open>log.error\<close> branches, which still build the hash of the current route).
\<close>

datatype go_arg = GoStr string | GoObj iroute | GoNamed string string
  | GoTag string "(string, string) jsmap" | GoFull string string "(string, string) jsmap" | GoBad

datatype go_effect = GoNavigate string | GoHash string | GoThrow

definition go_hash :: "iroute \<Rightarrow> router \<Rightarrow> router \<times> go_effect" where
  "go_hash r S = (case buildHash r (rt_route S) of (h, R') \<Rightarrow> (S\<lparr>rt_route := R', rt_hash := hash_of h\<rparr>, GoHash h))"

definition go :: "go_arg \<Rightarrow> router \<Rightarrow> router \<times> go_effect" where
  "go a S =
     (case a of
        GoStr s \<Rightarrow>
          if starts_with s ''http://'' \<or> starts_with s ''https://'' \<or> starts_with s ''/'' then (S, GoNavigate s)
          else (case parse s of None \<Rightarrow> (S, GoThrow) | Some r \<Rightarrow> go_hash r S)
      | GoObj r \<Rightarrow> go_hash r S
      | GoNamed n t \<Rightarrow> go_hash [(n, \<lparr>r_tag = t, r_attrs = []\<rparr>)] S
      | GoTag t atts \<Rightarrow> go_hash [(''default'', \<lparr>r_tag = t, r_attrs = atts\<rparr>)] S
      | GoFull n t atts \<Rightarrow> go_hash [(n, \<lparr>r_tag = t, r_attrs = atts\<rparr>)] S
      | GoBad \<Rightarrow> go_hash [] S)"

text \<open>The constructor: \<open>None\<close> when parsing the initial hash throws.\<close>

definition new_router :: "string \<Rightarrow> router option" where
  "new_router h = map_option (\<lambda>r. \<lparr>rt_route = r, rt_hash = h\<rparr>) (parse h)"

text \<open>The \<open>hashchange\<close> listener; when \<open>parse\<close> throws the route stays.\<close>

definition hashchange :: "router \<Rightarrow> router" where
  "hashchange S = (case parse (rt_hash S) of None \<Rightarrow> S | Some r \<Rightarrow> S\<lparr>rt_route := r\<rparr>)"

text \<open>
  Routes that survive printing and parsing: distinct names and attribute keys, no
  separator \<open>: ; ? & =\<close> in a name, tag, key or value, no upper-case letter in a tag
  or a key (both are lower-cased when parsed), and no empty name.
\<close>

definition route_safe :: "char \<Rightarrow> bool" where
  "route_safe c \<longleftrightarrow> c \<notin> set '':;?&='' "

definition tag_ok :: "string \<Rightarrow> bool" where
  "tag_ok t \<longleftrightarrow> list_all (\<lambda>c. route_safe c \<and> \<not> is_upper c) t"

definition attrs_ok :: "(string, string) jsmap \<Rightarrow> bool" where
  "attrs_ok atts \<longleftrightarrow> distinct (map fst atts)
     \<and> list_all (\<lambda>(k, v). tag_ok k \<and> list_all route_safe v) atts"

definition route_ok :: "iroute \<Rightarrow> bool" where
  "route_ok R \<longleftrightarrow> distinct (map fst R)
     \<and> list_all (\<lambda>(n, e). n \<noteq> [] \<and> list_all route_safe n \<and> tag_ok (r_tag e) \<and> attrs_ok (r_attrs e)) R"

abbreviation attrs_join :: "(string, string) jsmap \<Rightarrow> string" where
  "attrs_join atts \<equiv> join_with ''&'' (map (\<lambda>(k, v). k @ ''='' @ v) atts)"

lemma tag_ok_lower: "tag_ok t \<Longrightarrow> to_lower t = t"
  by (rule to_lower_no_upper) (auto simp: tag_ok_def list_all_iff)

lemma tag_ok_sep: "tag_ok t \<Longrightarrow> c \<in> set '':;?&='' \<Longrightarrow> c \<notin> set t"
  by (auto simp: tag_ok_def route_safe_def list_all_iff)

lemma safe_sep: "list_all route_safe t \<Longrightarrow> c \<in> set '':;?&='' \<Longrightarrow> c \<notin> set t"
  by (auto simp: route_safe_def list_all_iff)

lemma attr_sep:
  assumes "tag_ok k" "list_all route_safe v" "c \<in> set '':;?&''"
  shows "c \<notin> set (k @ ''='' @ v)"
  using tag_ok_sep [OF assms(1)] safe_sep [OF assms(2)] assms(3) by auto

lemma attrs_join_sep:
  assumes "attrs_ok atts" "c \<in> set '':;?''"
  shows "c \<notin> set (attrs_join atts)"
proof
  assume c: "c \<in> set (attrs_join atts)"
  have "c \<notin> set (k @ ''='' @ v)" if "(k, v) \<in> set atts" for k v
    using assms that by (intro attr_sep) (auto simp: attrs_ok_def list_all_iff)
  then have "\<forall>w \<in> set (map (\<lambda>(k, v). k @ ''='' @ v) atts). c \<notin> set w"
    by (auto simp del: set_append)
  then show False
    using c assms(2) set_join_with [of "''&''" "map (\<lambda>(k, v). k @ ''='' @ v) atts"] by auto
qed

lemma attrs_str_sep: "attrs_ok atts \<Longrightarrow> c \<in> set '':;'' \<Longrightarrow> c \<notin> set (attrs_str atts)"
  using attrs_join_sep [of atts c] by (auto simp: attrs_str_def)

lemma parse_attrs_str:
  assumes "atts \<noteq> []" and "attrs_ok atts"
  shows "parse_attrs (join_with ''&'' (map (\<lambda>(k, v). k @ ''='' @ v) atts)) = atts"
proof -
  let ?g = "\<lambda>(k, v). k @ ''='' @ v"
  have ok: "\<And>k v. (k, v) \<in> set atts \<Longrightarrow> tag_ok k \<and> list_all route_safe v"
    using assms(2) by (auto simp: attrs_ok_def list_all_iff)
  have sp: "split_on CHR ''&'' (join_with ''&'' (map ?g atts)) = map ?g atts"
  proof (intro split_join_no_sep [where c = "CHR ''&''", simplified])
    have "CHR ''&'' \<notin> set (k @ ''='' @ v)" if "(k, v) \<in> set atts" for k v
      using ok [OF that] by (intro attr_sep) simp_all
    then show "list_all (\<lambda>w. CHR ''&'' \<notin> set w) (map ?g atts)"
      by (auto simp: list_all_iff simp del: set_append)
  qed (use assms(1) in simp)
  have step: "(if ?g kv = [] then A else (let sp4 = split_on CHR ''='' (?g kv)
                in jm_set (to_lower (hd sp4)) (if 1 < length sp4 then sp4 ! 1 else []) A))
             = (case kv of (k, v) \<Rightarrow> jm_set k v A)" if "kv \<in> set atts" for kv A
  proof -
    obtain k v where kv: "kv = (k, v)" by fastforce
    have k: "tag_ok k" and v: "list_all route_safe v" using ok that kv by auto
    have "split_on CHR ''='' (k @ ''='' @ v) = [k, v]"
      using tag_ok_sep [OF k] safe_sep [OF v] by (simp add: split_on_two)
    then show ?thesis using kv tag_ok_lower [OF k] by simp
  qed
  have "parse_attrs (join_with ''&'' (map ?g atts)) = foldl (\<lambda>A (k, v). jm_set k v A) [] atts"
    unfolding parse_attrs_def sp foldl_map using step by (intro foldl_cong) auto
  then show ?thesis using foldl_jm_set_fresh [of atts "[]"] assms(2) by (simp add: attrs_ok_def)
qed

lemma join_attrs_ne: "atts \<noteq> [] \<Longrightarrow> join_with ''&'' (map (\<lambda>(k, v). k @ ''='' @ v) atts) \<noteq> []"
  by (cases atts) (auto simp: join_with_Cons)

lemma parseNamedPart_part_str:
  assumes n: "n \<noteq> []" "list_all route_safe n" and t: "tag_ok (r_tag e)" and a: "attrs_ok (r_attrs e)"
  shows "parseNamedPart (part_str n e) = (n, e)"
proof -
  let ?t = "r_tag e @ attrs_str (r_attrs e)"
  have nc: "CHR '':'' \<notin> set ?t"
    using tag_ok_sep [OF t] attrs_str_sep [OF a] by auto
  have sp1: "split_on CHR '':'' (part_str n e) = (if n = ''default'' then [?t] else [n, ?t])"
    using nc safe_sep [OF n(2), of "CHR '':''"] n(1)
    by (auto simp: part_str_def split_on_no_sep split_on_two)
  have name: "fst (parseNamedPart (part_str n e)) = n"
    using sp1 n(1) by (auto simp: parseNamedPart_def Let_def)
  have tag: "split_on CHR ''?'' ?t = (if r_attrs e = [] then [r_tag e] else [r_tag e, attrs_join (r_attrs e)])"
    using tag_ok_sep [OF t, of "CHR ''?''"] attrs_join_sep [OF a, of "CHR ''?''"]
    by (auto simp: attrs_str_def split_on_no_sep split_on_two)
  have pt: "(let sp1 = split_on CHR '':'' (part_str n e) in if 1 < length sp1 then sp1 ! 1 else part_str n e) = ?t"
    using sp1 by (simp add: part_str_def)
  have "snd (parseNamedPart (part_str n e)) = e"
  proof (cases "r_attrs e = []")
    case True
    then show ?thesis using pt tag tag_ok_lower [OF t] by (simp add: parseNamedPart_def Let_def)
  next
    case False
    then show ?thesis
      using pt tag tag_ok_lower [OF t] join_attrs_ne [OF False] parse_attrs_str [OF False a]
      by (simp add: parseNamedPart_def Let_def)
  qed
  then show ?thesis using name by (metis prod.collapse)
qed

lemma part_str_sep:
  assumes "list_all route_safe n" "tag_ok (r_tag e)" "attrs_ok (r_attrs e)"
  shows "CHR '';'' \<notin> set (part_str n e)"
  using safe_sep [OF assms(1), of "CHR '';''"] tag_ok_sep [OF assms(2), of "CHR '';''"]
    attrs_str_sep [OF assms(3), of "CHR '';''"]
  by (auto simp: part_str_def)

lemma parse_hash_str:
  assumes "route_ok R" "R \<noteq> []"
  shows "parse (CHR ''#'' # encodeURIComponent (hash_str R)) = Some R"
proof -
  let ?p = "\<lambda>(n, e). part_str n e"
  have ok: "\<And>n e. (n, e) \<in> set R \<Longrightarrow> n \<noteq> [] \<and> list_all route_safe n \<and> tag_ok (r_tag e) \<and> attrs_ok (r_attrs e)"
    using assms(1) by (auto simp: route_ok_def list_all_iff)
  have sp: "split_on CHR '';'' (hash_str R) = map ?p R"
    unfolding hash_str_def
  proof (intro split_join_no_sep [where c = "CHR '';''", simplified])
    show "list_all (\<lambda>w. CHR '';'' \<notin> set w) (map ?p R)"
      using ok part_str_sep by (auto simp: list_all_iff)
  qed (use assms(2) in simp)
  have "foldl (\<lambda>r v. case parseNamedPart v of (n, e) \<Rightarrow> jm_set n e r) [] (map ?p R)
          = foldl (\<lambda>A (k, v). jm_set k v A) [] R"
    unfolding foldl_map using ok parseNamedPart_part_str by (intro foldl_cong) auto
  then show ?thesis
    using sp foldl_jm_set_fresh [of R "[]"] assms(1) decode_encodeURIComponent
    by (simp add: parse_def starts_with_def route_ok_def)
qed

lemma parse_hash_of: "parse (hash_of h) = parse (CHR ''#'' # h)"
  by (simp add: hash_of_def parse_def starts_with_def)

lemma go_GoHash:
  assumes "go a S = (S', GoHash h)"
  shows "rt_hash S' = hash_of (encodeURIComponent (hash_str (rt_route S')))"
proof -
  have gh: "\<And>r. go_hash r S = (S', GoHash h) \<Longrightarrow> ?thesis"
    by (auto simp: go_hash_def buildHash_def Let_def)
  show ?thesis
  proof (cases a)
    case (GoStr s)
    then show ?thesis using assms gh
      by (auto simp: go_def split: if_splits option.splits)
  qed (use assms gh in \<open>auto simp: go_def\<close>)
qed

text \<open>
  C39. Setting a route by \<open>go\<close> and then handling the \<open>hashchange\<close> event that the new
  hash fires leaves the router as \<open>go\<close> left it: the hash \<open>_buildHash\<close> prints parses
  back to the merged route, for every route whose names, tags, keys and values avoid
  the separators (\<open>route_ok\<close>).
\<close>

theorem go_hashchange:
  assumes "go a S = (S', GoHash h)" "route_ok (rt_route S')" "rt_route S' \<noteq> []"
  shows "hashchange S' = S'"
  using parse_hash_str [OF assms(2,3)] go_GoHash [OF assms(1)] parse_hash_of
  by (simp add: hashchange_def)

lemma route_safe_default: "list_all route_safe ''default''"
  by (simp add: route_safe_def)

lemma merge_route_ok:
  "route_ok R \<Longrightarrow> list_all (\<lambda>(n, e). list_all route_safe n \<and> tag_ok (r_tag e) \<and> attrs_ok (r_attrs e)) cfg
     \<Longrightarrow> route_ok (merge_route cfg R)"
proof (induction cfg arbitrary: R)
  case (Cons x cfg)
  obtain n e where x: "x = (n, e)" by fastforce
  let ?n = "if n \<noteq> [] then n else ''default''"
  have n: "?n \<noteq> [] \<and> list_all route_safe ?n"
    using Cons.prems(2) x route_safe_default by (cases "n = []") simp_all
  have "route_ok (jm_set ?n e R)"
    unfolding route_ok_def
  proof
    show "distinct (map fst (jm_set ?n e R))" using Cons.prems(1) by (simp add: route_ok_def)
    show "list_all (\<lambda>(n, e). n \<noteq> [] \<and> list_all route_safe n \<and> tag_ok (r_tag e) \<and> attrs_ok (r_attrs e))
            (jm_set ?n e R)"
      using Cons.prems x n by (intro list_all_jm_set) (simp_all add: route_ok_def)
  qed
  moreover have "merge_route (x # cfg) R = merge_route cfg (jm_set ?n e R)"
    using x by (simp add: merge_route_def)
  ultimately show ?case using Cons by simp
qed (simp add: merge_route_def)

lemma value_eq_truncated:
  "hashchange (fst (go (GoTag ''t'' [(''a'', ''x=y'')]) \<lparr>rt_route = [], rt_hash = []\<rparr>))
     = \<lparr>rt_route = [(''default'', \<lparr>r_tag = ''t'', r_attrs = [(''a'', ''x'')]\<rparr>)],
        rt_hash = ''#t%3Fa%3Dx%3Dy''\<rparr>"
  by code_simp

end
