(* ===== verification/TplData.thy ===== *)
theory TplData
  imports JsNum Utils
begin

text \<open>
  Template data (\<open>Tpl.ts\<close>, class \<open>_TplData\<close>): the attributes of a \<open><template>\<close>
  declare the component's properties, those of its \<open><meta name="scope">\<close> its local
  data. An attribute \<open>name.type="value"\<close> declares \<open>name\<close> (a leading \<open>$ : @\<close> dropped)
  of type \<open>type\<close> (\<open>string\<close> when absent) with the value \<open>_parseValue\<close> reads from the
  text; an attribute starting with \<open>@\<close> is an event binding kept as text. The record
  \<open>tpl_data\<close> is the class's two maps; \<open>_tplElem\<close> and \<open>_scopeMetaEl\<close> only feed
  \<open>init\<close> and a log line, so they are the arguments of \<open>init\<close>. \<open>object\<close> and \<open>array\<close>
  values are evaluated by \<open>new Function\<close>: the model takes that evaluation as a
  parameter \<open>ev\<close> (\<open>None\<close> when it throws), of which nothing is assumed.
\<close>

datatype 'o tval = TVBool bool | TVNum jsnum | TVStr string | TVUndef | TVObj 'o

record 'o tpl_item =
  d_type :: string
  d_value :: "'o tval"
  d_orgName :: string
  d_orgValue :: string
  d_scopeName :: string
  d_attName :: string

record 'o tpl_data =
  td_props :: "(string, 'o tpl_item) jsmap"
  td_scope :: "(string, 'o tpl_item) jsmap"

type_synonym 'o evaluator = "string \<Rightarrow> 'o tval option"

text \<open>\<open>x <= y\<close> on numbers: false when either is \<open>NaN\<close>.\<close>

definition num_le :: "jsnum \<Rightarrow> jsnum \<Rightarrow> bool" where
  "num_le a b \<longleftrightarrow> num_lt a b \<or> num_seq a b"

text \<open>\<open>new Function("return " + value).call(undefined)\<close>; a throw is caught by \<open>_parseValue\<close>.\<close>

definition eval_literal :: "'o evaluator \<Rightarrow> string \<Rightarrow> 'o tval" where
  "eval_literal ev value = (case ev value of None \<Rightarrow> TVUndef | Some v \<Rightarrow> v)"

definition parseValue :: "'o evaluator \<Rightarrow> string \<Rightarrow> string \<Rightarrow> 'o tval" where
  "parseValue ev type value =
     (if type = ''bool'' then
        TVBool (\<not> (value = ''no'' \<or> value = ''false'' \<or> num_le (parse_int 0 value) (NNum 0)))
      else if type = ''int'' then TVNum (parse_int 0 value)
      else if type = ''float'' \<or> type = ''number'' then TVNum (parse_float value)
      else if type = ''object'' \<or> type = ''obj'' then
        (if starts_with value ''{'' \<and> ends_with value ''}'' then eval_literal ev value else TVUndef)
      else if type = ''array'' then
        (if starts_with value ''['' \<and> ends_with value '']'' then eval_literal ev value else TVUndef)
      else TVStr value)"

text \<open>The leading \<open>$\<close>, \<open>:\<close> or \<open>@\<close> that \<open>replace(/^[$:@]/, "")\<close> removes.\<close>

definition strip_prefix :: "string \<Rightarrow> string" where
  "strip_prefix s = (case s of c # r \<Rightarrow> if c \<in> set ''$:@'' then r else s | [] \<Rightarrow> [])"

definition parse_attr :: "'o evaluator \<Rightarrow> string \<Rightarrow> string \<Rightarrow> string \<times> 'o tpl_item" where
  "parse_attr ev name value =
     (if starts_with name ''@'' then
        (name, \<lparr>d_type = ''@'', d_value = TVStr value, d_orgName = name, d_orgValue = value,
                d_scopeName = [], d_attName = name\<rparr>)
      else
        (let sp = split_on CHR ''.'' name;
             attName = strip_prefix (sp ! 0);
             type = (if 1 < length sp \<and> sp ! 1 \<noteq> [] then sp ! 1 else ''string'')
         in (attName, \<lparr>d_type = type, d_value = parseValue ev type value, d_orgName = name,
                       d_orgValue = value, d_scopeName = kebabToSnake attName, d_attName = attName\<rparr>)))"

text \<open>\<open>_parseAttrs\<close>: \<open>is_meta\<close> when the element is a \<open><meta>\<close>, whose \<open>name\<close> is skipped.\<close>

definition parseAttrs :: "'o evaluator \<Rightarrow> bool \<Rightarrow> (string \<times> string) list \<Rightarrow> (string, 'o tpl_item) jsmap" where
  "parseAttrs ev is_meta atts =
     foldl (\<lambda>data (n, v). if is_meta \<and> n = ''name'' then data
                          else (case parse_attr ev n v of (k, d) \<Rightarrow> jm_set k d data)) [] atts"

text \<open>
  \<open>init\<close>: the template's attributes and those of its scope \<open><meta>\<close>, which is created
  with the single attribute \<open>name="scope"\<close> when the template has none.
\<close>

definition init :: "'o evaluator \<Rightarrow> (string \<times> string) list \<Rightarrow> (string \<times> string) list option \<Rightarrow> 'o tpl_data" where
  "init ev tpl_atts meta =
     \<lparr>td_props = parseAttrs ev False tpl_atts,
      td_scope = parseAttrs ev True (case meta of None \<Rightarrow> [(''name'', ''scope'')] | Some a \<Rightarrow> a)\<rparr>"

definition propsExist :: "'o tpl_data \<Rightarrow> string \<Rightarrow> bool" where
  "propsExist S name \<longleftrightarrow> name \<in> set (jm_keys (td_props S))"

definition propType :: "'o tpl_data \<Rightarrow> string \<Rightarrow> string option" where
  "propType S name = map_option d_type (map_of (td_props S) name)"

text \<open>The second argument of \<open>propsGetValue\<close>: a string, \<open>null\<close>/\<open>undefined\<close>, or another value.\<close>

datatype 'o pv_arg = GVStr string | GVNull | GVOther "'o tval"

definition propsGetValue :: "'o evaluator \<Rightarrow> 'o tpl_data \<Rightarrow> string \<Rightarrow> 'o pv_arg \<Rightarrow> 'o tval" where
  "propsGetValue ev S name value =
     (case map_of (td_props S) name of
        None \<Rightarrow> TVUndef
      | Some d \<Rightarrow> (case value of GVStr s \<Rightarrow> parseValue ev (d_type d) s | GVNull \<Rightarrow> d_value d | GVOther v \<Rightarrow> v))"

definition getData :: "'o tpl_data \<Rightarrow> string \<Rightarrow> 'o tpl_item option" where
  "getData S name = (case map_of (td_props S) name of Some d \<Rightarrow> Some d | None \<Rightarrow> map_of (td_scope S) name)"

text \<open>\<open>setData\<close> updates the item in place: its position in the map is kept.\<close>

definition set_item :: "'o evaluator \<Rightarrow> string \<Rightarrow> string \<Rightarrow> (string, 'o tpl_item) jsmap \<Rightarrow> (string, 'o tpl_item) jsmap" where
  "set_item ev name value data =
     (case map_of data name of
        None \<Rightarrow> data
      | Some d \<Rightarrow> jm_set name (d\<lparr>d_orgValue := value, d_value := parseValue ev (d_type d) value\<rparr>) data)"

definition setData :: "'o evaluator \<Rightarrow> string \<Rightarrow> string \<Rightarrow> 'o tpl_data \<Rightarrow> 'o tpl_data" where
  "setData ev name value S =
     (if propsExist S name then S\<lparr>td_props := set_item ev name value (td_props S)\<rparr>
      else S\<lparr>td_scope := set_item ev name value (td_scope S)\<rparr>)"

text \<open>
  The type discipline of an item: a \<open>bool\<close> holds a boolean, \<open>int\<close>, \<open>float\<close> and
  \<open>number\<close> a number, \<open>object\<close>, \<open>obj\<close> and \<open>array\<close> whatever the literal evaluates to,
  any other type (\<open>string\<close>, \<open>@\<close>, a misspelt type) its text.
\<close>

definition fits :: "string \<Rightarrow> 'o tval \<Rightarrow> bool" where
  "fits type v \<longleftrightarrow> type \<in> {''object'', ''obj'', ''array''} \<or>
     (case v of
        TVBool _ \<Rightarrow> type = ''bool''
      | TVNum _ \<Rightarrow> type \<in> {''int'', ''float'', ''number''}
      | TVStr _ \<Rightarrow> type \<notin> {''bool'', ''int'', ''float'', ''number''}
      | _ \<Rightarrow> False)"

definition item_ok :: "'o tpl_item \<Rightarrow> bool" where
  "item_ok d \<longleftrightarrow> fits (d_type d) (d_value d) \<and> (d_type d \<noteq> ''@'' \<longrightarrow> d_scopeName d = kebabToSnake (d_attName d))"

definition td_ok :: "'o tpl_data \<Rightarrow> bool" where
  "td_ok S \<longleftrightarrow> jm_all item_ok (td_props S) \<and> jm_all item_ok (td_scope S)"

lemma parseValue_fits: "fits type (parseValue ev type value)"
  by (simp add: parseValue_def fits_def)

lemma fits_event: "fits ''@'' (TVStr v)"
  by (simp add: fits_def)

lemma parse_attr_ok: "item_ok (snd (parse_attr ev n v))"
  unfolding parse_attr_def Let_def by (simp add: item_ok_def parseValue_fits fits_event)

lemma parseAttrs_ok: "jm_all item_ok (parseAttrs ev m atts)"
  unfolding parseAttrs_def
proof (rule foldl_invariant)
  fix acc :: "(string, 'a tpl_item) jsmap" and x :: "string \<times> string"
  assume "jm_all item_ok acc"
  then show "jm_all item_ok ((\<lambda>data (n, v). if m \<and> n = ''name'' then data
               else (case parse_attr ev n v of (k, d) \<Rightarrow> jm_set k d data)) acc x)"
    using parse_attr_ok [of ev "fst x" "snd x"]
    by (auto intro: jm_all_jm_set split: prod.splits)
qed (simp add: jm_all_def)

lemma set_item_ok: "jm_all item_ok data \<Longrightarrow> jm_all item_ok (set_item ev n v data)"
  by (auto simp: set_item_def item_ok_def parseValue_fits dest: jm_all_map_of
           intro!: jm_all_jm_set split: option.splits)

lemma init_ok: "td_ok (init ev tpl meta)"
  by (simp add: td_ok_def init_def parseAttrs_ok)

lemma setData_ok: "td_ok S \<Longrightarrow> td_ok (setData ev n v S)"
  by (simp add: td_ok_def setData_def set_item_ok)

lemma map_of_set_item:
  "map_of (set_item ev n v data) = (case map_of data n of None \<Rightarrow> map_of data
     | Some d \<Rightarrow> (map_of data)(n \<mapsto> d\<lparr>d_orgValue := v, d_value := parseValue ev (d_type d) v\<rparr>))"
  by (simp add: set_item_def split: option.splits)

lemma propsExist_map_of: "propsExist S n \<longleftrightarrow> map_of (td_props S) n \<noteq> None"
  by (simp add: propsExist_def map_of_eq_None_iff)

lemma keys_set_item: "jm_keys (set_item ev n v data) = jm_keys data"
  by (auto simp: set_item_def jm_keys_jm_set map_of_eq_None_iff split: option.splits
           intro: rev_image_eqI dest: map_of_SomeD)

text \<open>Reading a property back after \<open>setData\<close>: its default is the parsed new text.\<close>

lemma setData_propsGetValue:
  assumes "propType S n = Some ty"
  shows "propsGetValue ev (setData ev n v S) n GVNull = parseValue ev ty v"
proof -
  obtain d where d: "map_of (td_props S) n = Some d" "d_type d = ty"
    using assms by (auto simp: propType_def)
  then have "propsExist S n" by (simp add: propsExist_map_of)
  then show ?thesis using d by (simp add: setData_def propsGetValue_def map_of_set_item)
qed

text \<open>An undeclared name is ignored by \<open>setData\<close>: the value of a script variable stays.\<close>

lemma setData_undeclared: "getData S n = None \<Longrightarrow> setData ev n v S = S"
  by (simp add: getData_def setData_def set_item_def propsExist_map_of split: option.splits)

lemma setData_keys:
  "jm_keys (td_props (setData ev n v S)) = jm_keys (td_props S)
   \<and> jm_keys (td_scope (setData ev n v S)) = jm_keys (td_scope S)"
  by (simp add: setData_def keys_set_item)

lemma bool_attr_values:
  fixes ev :: "unit evaluator"
  shows "parseValue ev ''bool'' ''0'' = TVBool False \<and> parseValue ev ''bool'' ''-3'' = TVBool False
   \<and> parseValue ev ''bool'' ''off'' = TVBool True \<and> parseValue ev ''bool'' [] = TVBool True
   \<and> parseValue ev ''bool'' ''False'' = TVBool True"
  by code_simp

text \<open>
  C40. Every item of the template data holds a value of its declared type, after
  \<open>init\<close> and after any sequence of \<open>setData\<close> calls.
\<close>

theorem tpl_data_typed:
  "td_ok (foldl (\<lambda>S (n, v). setData ev n v S) (init ev tpl_atts meta) ops)"
  by (rule foldl_invariant) (auto simp: init_ok intro: setData_ok split: prod.splits)

end
