(* ===== verification/UmdLoader.thy ===== *)
theory UmdLoader
  imports WcTag JsNum
begin

text \<open>
  The module registry of the AMD/UMD loader (\<open>UmdLoader.ts\<close>). The loader \<open>Umd\<close> keeps
  the file modules by URL (\<open>_files\<close>) and the npm packages by name (\<open>_npmModules\<close>);
  a package (\<open>_UmdModule\<close>) keeps the files it loaded under its own ids
  (\<open>_moduleFiles\<close>) and its loader plugins; a file (\<open>_UmdFile\<close>) keeps the chunks that
  \<open>define\<close> registers in it. Files are shared objects: the loader and a package hold
  the same \<open>_UmdFile\<close>, and a package keeps a file that the loader dropped. So files
  live in a store indexed by object ids (\<open>u_store\<close>, fresh ids from \<open>u_next\<close>), and
  both maps hold ids. Packages are never removed and are named by their key.

  A loader operation returns its result, or the error it throws, together with the
  state at that point: JavaScript keeps the mutations made before a throw. The only
  throw of these operations is \<open>decodeURIComponent\<close>'s \<open>URIError\<close>; \<open>NoModule\<close> and
  \<open>NoFile\<close> are dangling references, which \<open>umd_wf\<close> rules out. The asynchronous
  loading of a file's content (\<open>_defer\<close>, \<open>fetch\<close>, script elements) is not modelled.
\<close>

datatype umd_error = URIError | NoModule | NoFile

text \<open>
  An argument of \<open>define\<close>: \<open>undefined\<close>, a string, an array of strings, or another
  value (a factory function or an exported object, always truthy).
\<close>

datatype 'v darg = DUndef | DStr string | DArr "string list" | DVal 'v

record 'v chunk =
  ch_deps :: "string list"
  ch_init :: "'v darg"
  ch_sync :: bool

record 'v ufile =
  f_url :: string
  f_module :: string
  f_chunks :: "(string, 'v chunk) jsmap"
  f_default :: "'v chunk option"

text \<open>
  A reference to a chunk object: a named chunk of a file, or a child chunk of a
  package's plugin. A loader plugin (\<open>_UmdPlugins\<close>) holds its plugin chunk and its children.
\<close>

datatype chunk_ref = CFile nat string | CPlug string string

record 'v uplugin =
  pl_chunk :: chunk_ref
  pl_children :: "(string, 'v chunk) jsmap"

record 'v umodule =
  um_name :: string
  um_info :: npm_module
  um_files :: "(string, nat) jsmap"
  um_plugins :: "(string, 'v uplugin) jsmap"

record 'v umd =
  u_files :: "(string, nat) jsmap"
  u_store :: "(nat, 'v ufile) jsmap"
  u_next :: nat
  u_modules :: "(string, 'v umodule) jsmap"
  u_counter :: nat

type_synonym ('v, 'a) uresult = "(umd_error + 'a) \<times> 'v umd"

definition ubind :: "('v, 'a) uresult \<Rightarrow> ('a \<Rightarrow> 'v umd \<Rightarrow> ('v, 'b) uresult) \<Rightarrow> ('v, 'b) uresult" where
  "ubind r f = (case r of (Inl e, U) \<Rightarrow> (Inl e, U) | (Inr a, U) \<Rightarrow> f a U)"

definition new_chunk :: "'v chunk" where
  "new_chunk = \<lparr>ch_deps = [], ch_init = DUndef, ch_sync = False\<rparr>"

section \<open>Packages and files of the loader\<close>

text \<open>The package description of an unregistered package (the \<open>_UmdModule\<close> constructor).\<close>

definition default_info :: "html_meta \<Rightarrow> string \<Rightarrow> npm_module" where
  "default_info M name =
     \<lparr>mod_name = name, mod_baseUrl = joinUrl [Some (npmUrl M), Some name], mod_files = [''index.js''],
      mod_deps = [], mod_globalVar = None, mod_preload = False, mod_version = None, mod_url = None,
      mod_exportName = None, mod_prefix = None, mod_esm = False, mod_cjs = False, mod_amd = False,
      mod_eval = False, mod_cors = npmCors M\<rparr>"

definition new_module :: "html_meta \<Rightarrow> string \<Rightarrow> 'v umodule" where
  "new_module M name =
     \<lparr>um_name = name,
      um_info = (case map_of (modules M) name of Some i \<Rightarrow> i | None \<Rightarrow> default_info M name),
      um_files = [], um_plugins = []\<rparr>"

text \<open>\<open>Umd.getModule\<close>: an empty or absent name is the global package \<open>/\<close>.\<close>

definition getModule :: "html_meta \<Rightarrow> string \<Rightarrow> 'v umd \<Rightarrow> string \<times> 'v umd" where
  "getModule M pkgName U =
     (let name = (if pkgName = [] then ''/'' else pkgName)
      in case map_of (u_modules U) name of
           Some _ \<Rightarrow> (name, U)
         | None \<Rightarrow> (name, U\<lparr>u_modules := jm_set name (new_module M name) (u_modules U)\<rparr>))"

definition findModule :: "string \<Rightarrow> 'v umd \<Rightarrow> 'v umodule option" where
  "findModule pkgName U = map_of (u_modules U) pkgName"

text \<open>\<open>Umd.getFile\<close>: a new file belongs to the global package, created on demand.\<close>

definition getFile :: "html_meta \<Rightarrow> string \<Rightarrow> 'v umd \<Rightarrow> ('v, nat) uresult" where
  "getFile M url U =
     (case decodeURIComponent url of
        None \<Rightarrow> (Inl URIError, U)
      | Some u \<Rightarrow>
          (case map_of (u_files U) u of
             Some fid \<Rightarrow> (Inr fid, U)
           | None \<Rightarrow>
               (let (m, U1) = getModule M ''/'' U; fid = u_next U1
                in (Inr fid, U1\<lparr>u_files := jm_set u fid (u_files U1),
                               u_store := jm_set fid \<lparr>f_url = u, f_module = m, f_chunks = [], f_default = None\<rparr> (u_store U1),
                               u_next := Suc fid\<rparr>))))"

definition findFile :: "string \<Rightarrow> 'v umd \<Rightarrow> umd_error + nat option" where
  "findFile url U = (case decodeURIComponent url of None \<Rightarrow> Inl URIError | Some u \<Rightarrow> Inr (map_of (u_files U) u))"

section \<open>URLs relative to a package and to a file\<close>

definition mod_toUrl :: "location \<Rightarrow> html_meta \<Rightarrow> npm_module \<Rightarrow> string \<Rightarrow> string" where
  "mod_toUrl L M info url =
     (if starts_with url ''http://'' \<or> starts_with url ''https://'' then url
      else if starts_with url ''.'' then joinUrl [Some (loc_origin L), Some (loc_pathname L), Some url]
      else if starts_with url ''@/'' then joinUrl [Some (npmUrl M), Some (drop 2 url)]
      else joinUrl [Some (mod_baseUrl info), Some url])"

definition file_toUrl :: "location \<Rightarrow> html_meta \<Rightarrow> npm_module \<Rightarrow> 'v ufile \<Rightarrow> string \<Rightarrow> string" where
  "file_toUrl L M info f url =
     (if starts_with url ''http://'' \<or> starts_with url ''https://'' \<or> starts_with url ''/'' then url
      else if starts_with url ''.'' then joinUrl [Some (f_url f), Some ''..'', Some url]
      else mod_toUrl L M info url)"

definition get_module :: "string \<Rightarrow> 'v umd \<Rightarrow> umd_error + 'v umodule" where
  "get_module m U = (case map_of (u_modules U) m of None \<Rightarrow> Inl NoModule | Some x \<Rightarrow> Inr x)"

definition get_file :: "nat \<Rightarrow> 'v umd \<Rightarrow> umd_error + 'v ufile" where
  "get_file fid U = (case map_of (u_store U) fid of None \<Rightarrow> Inl NoFile | Some f \<Rightarrow> Inr f)"

text \<open>The URL a package resolves a path to, relative to the referring file if any.\<close>

definition ref_url :: "location \<Rightarrow> html_meta \<Rightarrow> 'v umd \<Rightarrow> 'v umodule \<Rightarrow> nat option \<Rightarrow> string \<Rightarrow> umd_error + string" where
  "ref_url L M U m ref path =
     (case ref of
        None \<Rightarrow> Inr (mod_toUrl L M (um_info m) path)
      | Some fid \<Rightarrow>
          (case get_file fid U of
             Inl e \<Rightarrow> Inl e
           | Inr f \<Rightarrow> (case get_module (f_module f) U of
                         Inl e \<Rightarrow> Inl e
                       | Inr fm \<Rightarrow> Inr (file_toUrl L M (um_info fm) f path))))"

definition upd_module :: "string \<Rightarrow> ('v umodule \<Rightarrow> 'v umodule) \<Rightarrow> 'v umd \<Rightarrow> 'v umd" where
  "upd_module name g U =
     (case map_of (u_modules U) name of None \<Rightarrow> U
      | Some m \<Rightarrow> U\<lparr>u_modules := jm_set name (g m) (u_modules U)\<rparr>)"

definition upd_file :: "nat \<Rightarrow> ('v ufile \<Rightarrow> 'v ufile) \<Rightarrow> 'v umd \<Rightarrow> 'v umd" where
  "upd_file fid g U = (case map_of (u_store U) fid of None \<Rightarrow> U | Some f \<Rightarrow> U\<lparr>u_store := jm_set fid (g f) (u_store U)\<rparr>)"

text \<open>
  \<open>_UmdModule._getFile\<close>: a path starting with \<open>/\<close> is resolved against the package
  even with a referring file. The id is decoded, and \<open>Umd.getFile\<close> decodes it again.
\<close>

definition mod_getFile :: "location \<Rightarrow> html_meta \<Rightarrow> string \<Rightarrow> string \<Rightarrow> nat option \<Rightarrow> 'v umd \<Rightarrow> ('v, nat) uresult" where
  "mod_getFile L M mname path ref U =
     (case get_module mname U of
        Inl e \<Rightarrow> (Inl e, U)
      | Inr m \<Rightarrow>
          (case ref_url L M U m (if starts_with path ''/'' then None else ref) path of
             Inl e \<Rightarrow> (Inl e, U)
           | Inr u0 \<Rightarrow>
               (case decodeURIComponent u0 of
                  None \<Rightarrow> (Inl URIError, U)
                | Some i \<Rightarrow>
                    (case map_of (um_files m) i of
                       Some fid \<Rightarrow> (Inr fid, U)
                     | None \<Rightarrow>
                         ubind (getFile M i U) (\<lambda>fid U1.
                           (Inr fid, upd_module mname (\<lambda>m. m\<lparr>um_files := jm_set i fid (um_files m)\<rparr>)
                                      (upd_file fid (\<lambda>f. f\<lparr>f_module := mname\<rparr>) U1)))))))"

definition mod_findFile :: "location \<Rightarrow> html_meta \<Rightarrow> string \<Rightarrow> string \<Rightarrow> nat option \<Rightarrow> 'v umd \<Rightarrow> umd_error + nat option" where
  "mod_findFile L M mname path ref U =
     (case get_module mname U of
        Inl e \<Rightarrow> Inl e
      | Inr m \<Rightarrow>
          (case ref_url L M U m ref path of
             Inl e \<Rightarrow> Inl e
           | Inr u0 \<Rightarrow> (case decodeURIComponent u0 of None \<Rightarrow> Inl URIError | Some i \<Rightarrow> Inr (map_of (um_files m) i))))"

definition mod_removeFile :: "location \<Rightarrow> html_meta \<Rightarrow> string \<Rightarrow> string \<Rightarrow> 'v umd \<Rightarrow> ('v, unit) uresult" where
  "mod_removeFile L M mname path U =
     (case get_module mname U of
        Inl e \<Rightarrow> (Inl e, U)
      | Inr m \<Rightarrow>
          (case decodeURIComponent (mod_toUrl L M (um_info m) path) of
             None \<Rightarrow> (Inl URIError, U)
           | Some i \<Rightarrow> (Inr (), upd_module mname (\<lambda>m. m\<lparr>um_files := jm_delete i (um_files m)\<rparr>) U)))"

text \<open>\<open>Umd.removeFileMatched\<close>: the loop runs over the keys taken before it starts.\<close>

definition remove_step :: "location \<Rightarrow> html_meta \<Rightarrow> string \<Rightarrow> string \<Rightarrow> 'v umd \<Rightarrow> ('v, unit) uresult" where
  "remove_step L M pre k U =
     (if starts_with k (pre @ ''.'') then
        (case map_of (u_files U) k of
           None \<Rightarrow> (Inl NoFile, U)
         | Some fid \<Rightarrow>
             (case get_file fid U of
                Inl e \<Rightarrow> (Inl e, U)
              | Inr f \<Rightarrow> ubind (mod_removeFile L M (f_module f) k U)
                           (\<lambda>_ U1. (Inr (), U1\<lparr>u_files := jm_delete k (u_files U1)\<rparr>))))
      else (Inr (), U))"

fun remove_loop :: "location \<Rightarrow> html_meta \<Rightarrow> string \<Rightarrow> string list \<Rightarrow> 'v umd \<Rightarrow> ('v, unit) uresult" where
  "remove_loop L M pre [] U = (Inr (), U)"
| "remove_loop L M pre (k # ks) U = ubind (remove_step L M pre k U) (\<lambda>_ U1. remove_loop L M pre ks U1)"

definition removeFileMatched :: "location \<Rightarrow> html_meta \<Rightarrow> string \<Rightarrow> 'v umd \<Rightarrow> ('v, unit) uresult" where
  "removeFileMatched L M url U =
     (case decodeURIComponent url of
        None \<Rightarrow> (Inl URIError, U)
      | Some pre \<Rightarrow> remove_loop L M pre (jm_keys (u_files U)) U)"

section \<open>Chunks and \<open>define\<close>\<close>

definition getChildChunk :: "string \<Rightarrow> 'v ufile \<Rightarrow> 'v ufile" where
  "getChildChunk name f =
     (case map_of (f_chunks f) name of Some _ \<Rightarrow> f | None \<Rightarrow> f\<lparr>f_chunks := jm_set name new_chunk (f_chunks f)\<rparr>)"

definition getDefaultModule :: "'v ufile \<Rightarrow> 'v ufile" where
  "getDefaultModule f = (case f_default f of Some _ \<Rightarrow> f | None \<Rightarrow> f\<lparr>f_default := Some new_chunk\<rparr>)"

text \<open>
  \<open>_updateDeps\<close> with an array, then \<open>_updateDefineExports\<close>, which resolves the
  chunk at once (\<open>_resloveSync\<close>) when the file's package is preloaded.
\<close>

definition chunk_define :: "string list \<Rightarrow> 'v darg \<Rightarrow> bool \<Rightarrow> 'v chunk \<Rightarrow> 'v chunk" where
  "chunk_define deps e preload c = c\<lparr>ch_deps := deps, ch_init := e, ch_sync := (ch_sync c \<or> preload)\<rparr>"

fun darg_truthy :: "'v darg \<Rightarrow> bool" where
  "darg_truthy DUndef = False"
| "darg_truthy (DStr s) = (s \<noteq> [])"
| "darg_truthy (DArr _) = True"
| "darg_truthy (DVal _) = True"

text \<open>
  The chunk name passed to \<open>define\<close>: a string, or an array converted by
  \<open>Array.prototype.toString\<close>. A function or object passed as the name is not modelled.
\<close>

fun name_arg :: "'v darg \<Rightarrow> string" where
  "name_arg (DStr s) = s"
| "name_arg (DArr l) = join_with '','' l"
| "name_arg _ = []"

text \<open>
  The three call shapes of \<open>define\<close>: the chunk name (empty for the default chunk),
  the dependencies and the exports. A second argument of the three-argument form
  that is neither an array nor a string is not modelled.
\<close>

definition define_args :: "'v darg \<Rightarrow> 'v darg \<Rightarrow> 'v darg \<Rightarrow> string \<times> string list \<times> 'v darg" where
  "define_args a1 a2 a3 =
     (if darg_truthy a3 then
        (name_arg a1, (case a2 of DArr l \<Rightarrow> l | DStr s \<Rightarrow> [s] | _ \<Rightarrow> []), a3)
      else if darg_truthy a2 then
        (case a1 of DArr l \<Rightarrow> ([], l, a2) | _ \<Rightarrow> (name_arg a1, [], a2))
      else ([], [], a1))"

text \<open>
  The package of a script under the npm URL, by \<open>/^(@.+?\/.+?)\/.*$/\<close> or
  \<open>/^(.+?)\/.*$/\<close>. Without the \<open>m\<close> flag both must span the whole text, which
  therefore holds no line terminator.
\<close>

definition no_lt :: "string \<Rightarrow> bool" where
  "no_lt s \<longleftrightarrow> CHR 0x0A \<notin> set s \<and> CHR 0x0D \<notin> set s"

definition slash_from :: "nat \<Rightarrow> string \<Rightarrow> nat option" where
  "slash_from n s = find (\<lambda>i. s ! i = CHR ''/'') [n..<length s]"

definition script_pkg :: "string \<Rightarrow> string option" where
  "script_pkg s =
     (if \<not> no_lt s then None
      else if starts_with s ''@'' then
        (case slash_from 2 s of
           None \<Rightarrow> None
         | Some i \<Rightarrow> (case slash_from (i + 2) s of None \<Rightarrow> None | Some j \<Rightarrow> Some (take j s)))
      else (case slash_from 1 s of None \<Rightarrow> None | Some i \<Rightarrow> Some (take i s)))"

record script =
  sc_src :: string
  sc_id :: string

datatype def_out = DefCustom string | DefNoScript | DefChunk string nat string

text \<open>
  \<open>define\<close>: a script of a package with a custom AMD loader (\<open>amdl\<close>, the registry
  \<open>WCEX.amdloader\<close>) is handed to that loader; otherwise the current script gets an
  id when it has none (\<open>script-inline-\<close> and the counter), and the chunk is
  registered in the file module of the script's URL or id. The result carries the
  script's id, the file and the chunk name.
\<close>

definition amd_define :: "html_meta \<Rightarrow> (string \<Rightarrow> bool) \<Rightarrow> script option \<Rightarrow> 'v darg \<Rightarrow> 'v darg \<Rightarrow> 'v darg
     \<Rightarrow> 'v umd \<Rightarrow> ('v, def_out) uresult" where
  "amd_define M amdl cur a1 a2 a3 U =
     (let custom = (case cur of
                      None \<Rightarrow> None
                    | Some sc \<Rightarrow>
                        if sc_src sc \<noteq> [] \<and> starts_with (sc_src sc) (npmUrl M)
                        then (case script_pkg (drop (length (npmUrl M)) (sc_src sc)) of
                                Some pkg \<Rightarrow> if pkg \<noteq> [] \<and> amdl pkg then Some pkg else None
                              | None \<Rightarrow> None)
                        else None)
      in case custom of
           Some pkg \<Rightarrow> (Inr (DefCustom pkg), U)
         | None \<Rightarrow>
             (let (name, deps, e) = define_args a1 a2 a3
              in case cur of
                   None \<Rightarrow> (Inr DefNoScript, U)
                 | Some sc \<Rightarrow>
                     (let (sid, U1) = (if sc_id sc = [] then (''script-inline-'' @ string_of_nat (u_counter U),
                                                              U\<lparr>u_counter := Suc (u_counter U)\<rparr>)
                                       else (sc_id sc, U));
                          scriptId = (if sc_src sc \<noteq> [] then sc_src sc else sid)
                      in ubind (getFile M scriptId U1) (\<lambda>fid U2.
                           case get_file fid U2 of
                             Inl err \<Rightarrow> (Inl err, U2)
                           | Inr f \<Rightarrow>
                               (case get_module (f_module f) U2 of
                                  Inl err \<Rightarrow> (Inl err, U2)
                                | Inr m \<Rightarrow>
                                    (let pre = mod_preload (um_info m);
                                         f' = (if name \<noteq> [] then
                                                 (let g = getChildChunk name f
                                                  in g\<lparr>f_chunks := jm_set name (chunk_define deps e pre (case map_of (f_chunks g) name of Some c \<Rightarrow> c | None \<Rightarrow> new_chunk)) (f_chunks g)\<rparr>)
                                               else
                                                 (let g = getDefaultModule f
                                                  in g\<lparr>f_default := map_option (chunk_define deps e pre) (f_default g)\<rparr>))
                                     in (Inr (DefChunk sid fid name), U2\<lparr>u_store := jm_set fid f' (u_store U2)\<rparr>)))))))"

section \<open>Which chunk a file exports\<close>

datatype chunk_sel = SelNone | SelDefault | SelChunk string

text \<open>
  \<open>_getJsChunksExports\<close>: the default chunk, else the only chunk, else the first of
  \<open>index.js\<close>, \<open>main\<close>, \<open>main.js\<close> and the package's export name (\<open>index\<close> when it
  has none) that is a chunk, else the last chunk.
\<close>

definition select_export :: "npm_module \<Rightarrow> 'v ufile \<Rightarrow> chunk_sel" where
  "select_export info f =
     (if f_default f \<noteq> None then SelDefault
      else
        (let ks = jm_keys (f_chunks f)
         in if ks = [] then SelNone
            else if length ks = 1 then SelChunk (hd ks)
            else
              (let de = (case mod_exportName info of Some n \<Rightarrow> if n = [] then ''index'' else n | None \<Rightarrow> ''index'')
               in case find (\<lambda>k. k \<in> set ks) [''index.js'', ''main'', ''main.js'', de] of
                    Some k \<Rightarrow> SelChunk k
                  | None \<Rightarrow> SelChunk (last ks))))"

section \<open>Resolving a \<open>require\<close>\<close>

text \<open>\<open>_UmdModule._findChunk\<close>: the files of the package in order, then its plugins.\<close>

fun find_in_files :: "'v umd \<Rightarrow> string \<Rightarrow> (string \<times> nat) list \<Rightarrow> chunk_ref option" where
  "find_in_files U name [] = None"
| "find_in_files U name ((k, fid) # fs) =
     (case map_of (u_store U) fid of
        Some f \<Rightarrow> if map_of (f_chunks f) name \<noteq> None then Some (CFile fid name) else find_in_files U name fs
      | None \<Rightarrow> find_in_files U name fs)"

definition find_chunk :: "'v umd \<Rightarrow> 'v umodule \<Rightarrow> string \<Rightarrow> chunk_ref option" where
  "find_chunk U m name =
     (case find_in_files U name (um_files m) of
        Some r \<Rightarrow> Some r
      | None \<Rightarrow> map_option (\<lambda>(p, _). CPlug p name)
                  (find (\<lambda>(p, pl). map_of (pl_children pl) name \<noteq> None) (um_plugins m)))"

text \<open>\<open>_getPlugins\<close>: a plugin is created once its plugin chunk exists.\<close>

definition getPlugins :: "string \<Rightarrow> string \<Rightarrow> 'v umd \<Rightarrow> bool \<times> 'v umd" where
  "getPlugins mname p U =
     (case map_of (u_modules U) mname of
        None \<Rightarrow> (False, U)
      | Some m \<Rightarrow>
          (case map_of (um_plugins m) p of
             Some _ \<Rightarrow> (True, U)
           | None \<Rightarrow>
               (case find_chunk U m p of
                  None \<Rightarrow> (False, U)
                | Some c \<Rightarrow> (True, upd_module mname (\<lambda>m. m\<lparr>um_plugins :=
                                jm_set p \<lparr>pl_chunk = c, pl_children = []\<rparr> (um_plugins m)\<rparr>) U))))"

text \<open>\<open>_UmdPlugins._getChunk\<close>.\<close>

definition plugin_getChunk :: "string \<Rightarrow> string \<Rightarrow> string \<Rightarrow> 'v umd \<Rightarrow> 'v umd" where
  "plugin_getChunk mname p name U =
     upd_module mname (\<lambda>m. m\<lparr>um_plugins :=
       (case map_of (um_plugins m) p of
          None \<Rightarrow> um_plugins m
        | Some pl \<Rightarrow> if map_of (pl_children pl) name \<noteq> None then um_plugins m
                     else jm_set p (pl\<lparr>pl_children := jm_set name new_chunk (pl_children pl)\<rparr>) (um_plugins m))\<rparr>) U"

text \<open>
  \<open>/(.+)\!(.+)/\<close>: the match lies in the first line (between line terminators) that has
  a \<open>!\<close> with a character before and after it; the greedy first group ends at the last
  such \<open>!\<close> and the second group takes the rest of the line.
\<close>

definition bang_line :: "string \<Rightarrow> (string \<times> string) option" where
  "bang_line r =
     (let is = filter (\<lambda>i. r ! i = CHR ''!'') [1..<length r - 1]
      in if is = [] then None else Some (take (last is) r, drop (Suc (last is)) r))"

definition bang_match :: "string \<Rightarrow> (string \<times> string) option" where
  "bang_match s =
     (case find (\<lambda>r. bang_line r \<noteq> None) (concat (map (split_on (CHR 0x0D)) (split_on (CHR 0x0A) s))) of
        None \<Rightarrow> None
      | Some r \<Rightarrow> bang_line r)"

text \<open>
  A package name and the path in it: \<open>/^(@[a-z0-9-\.]+\/[a-z0-9-\.]+)(\/.*)?$/\<close>, else
  \<open>/^([a-z0-9-\.]+)(\/.*)?$/\<close>. The path is empty when the optional group is absent.
\<close>

definition npm_char :: "char \<Rightarrow> bool" where
  "npm_char c \<longleftrightarrow> pkg_char c \<or> c = CHR ''.''"

definition pkg_rest :: "string \<Rightarrow> bool" where
  "pkg_rest r \<longleftrightarrow> r = [] \<or> (hd r = CHR ''/'' \<and> no_lt r)"

definition plain_pkg :: "string \<Rightarrow> (string \<times> string) option" where
  "plain_pkg s =
     (let a = takeWhile npm_char s; r = drop (length a) s
      in if a \<noteq> [] \<and> pkg_rest r then Some (a, r) else None)"

definition match_pkg :: "string \<Rightarrow> (string \<times> string) option" where
  "match_pkg s =
     (let scoped =
        (case s of
           CHR ''@'' # t \<Rightarrow>
             (let a = takeWhile npm_char t; r1 = drop (length a) t
              in if a \<noteq> [] \<and> starts_with r1 ''/'' then
                   (case plain_pkg (tl r1) of
                      Some (b, r2) \<Rightarrow> Some (CHR ''@'' # a @ CHR ''/'' # b, r2)
                    | None \<Rightarrow> None)
                 else None)
         | _ \<Rightarrow> None)
      in case scoped of Some x \<Rightarrow> Some x | None \<Rightarrow> plain_pkg s)"

text \<open>The default extension: none gives \<open>.js\<close>, \<open>.ts\<close> becomes \<open>.js\<close>.\<close>

definition js_ext :: "string \<Rightarrow> string \<Rightarrow> string" where
  "js_ext ext p =
     (if ext = [] then p @ ''.js'' else if ext = ''ts'' then take (length p - 3) p @ ''.js'' else p)"

datatype req_target = TChunk chunk_ref | TFile nat | TModule string | TNone

text \<open>A package name, alone (the package's export) or with a path in the package.\<close>

definition require_npm :: "location \<Rightarrow> html_meta \<Rightarrow> string \<Rightarrow> string \<Rightarrow> nat option \<Rightarrow> 'v umd \<Rightarrow> ('v, req_target) uresult" where
  "require_npm L M n1 ext ref U =
     (case match_pkg n1 of
        None \<Rightarrow> (Inr TNone, U)
      | Some (pkg, file) \<Rightarrow>
          (let (pn, U1) = getModule M pkg U
           in if file = [] then (Inr (TModule pn), U1)
              else ubind (mod_getFile L M pn (js_ext ext file) ref U1) (\<lambda>fid U2. (Inr (TFile fid), U2))))"

text \<open>
  \<open>_requireExports\<close> up to the point where it waits for a result: the chunk, file or
  package whose result the \<open>require\<close> returns, with the packages, files and plugin
  chunks it creates on the way.
\<close>

definition requireExports :: "location \<Rightarrow> html_meta \<Rightarrow> string \<Rightarrow> string \<Rightarrow> nat option \<Rightarrow> 'v umd \<Rightarrow> ('v, req_target) uresult" where
  "requireExports L M mname name ref U =
     (case get_module mname U of
        Inl e \<Rightarrow> (Inl e, U)
      | Inr m \<Rightarrow>
          (case find_chunk U m name of
             Some c \<Rightarrow> (Inr (TChunk c), U)
           | None \<Rightarrow>
               (case bang_match name of
                  Some (p, _) \<Rightarrow>
                    (let (ok, U1) = getPlugins mname p U
                     in if \<not> ok then (Inr TNone, U1)
                        else (Inr (TChunk (CPlug p name)), plugin_getChunk mname p name U1))
                | None \<Rightarrow>
                    (case mod_findFile L M mname name None U of
                       Inl e \<Rightarrow> (Inl e, U)
                     | Inr (Some fid) \<Rightarrow> (Inr (TFile fid), U)
                     | Inr None \<Rightarrow>
                         (let n1 = (if starts_with name ''@/'' then drop 2 name else name);
                              ext = extNameFromUrl n1
                          in if starts_with n1 ''.'' \<or> starts_with n1 ''/'' \<or> starts_with n1 ''http://''
                                \<or> starts_with n1 ''https://''
                             then ubind (mod_getFile L M mname (js_ext ext n1) ref U) (\<lambda>fid U1. (Inr (TFile fid), U1))
                             else require_npm L M n1 ext ref U)))))"

text \<open>\<open>_loadModuleDeps\<close>: \<open>*\<close> stands for the dependencies listed in \<open>package.json\<close>.\<close>

definition expand_deps :: "string list \<Rightarrow> string list \<Rightarrow> string list" where
  "expand_deps pkgDeps deps = (if ''*'' \<in> set deps then pkgDeps @ filter (\<lambda>v. v \<noteq> ''*'') deps else deps)"

section \<open>Well-formedness and the operations as steps\<close>

text \<open>
  A well-formed registry: ids held by the loader, by a package (its files and its
  plugins' chunks) are allocated in the store, keys are distinct, every stored file is
  below the next fresh id and belongs to a registered package.
\<close>

fun ref_ok :: "'v umd \<Rightarrow> chunk_ref \<Rightarrow> bool" where
  "ref_ok U (CFile fid _) \<longleftrightarrow> fid \<in> fst ` set (u_store U)"
| "ref_ok U (CPlug _ _) \<longleftrightarrow> True"

definition mod_ok :: "'v umd \<Rightarrow> 'v umodule \<Rightarrow> bool" where
  "mod_ok U m \<longleftrightarrow> (\<forall>(i, fid) \<in> set (um_files m). fid \<in> fst ` set (u_store U))
     \<and> (\<forall>(p, pl) \<in> set (um_plugins m). ref_ok U (pl_chunk pl))"

definition umd_wf :: "'v umd \<Rightarrow> bool" where
  "umd_wf U \<longleftrightarrow> distinct (jm_keys (u_files U)) \<and> distinct (jm_keys (u_store U))
     \<and> distinct (jm_keys (u_modules U))
     \<and> (\<forall>(k, fid) \<in> set (u_files U). fid \<in> fst ` set (u_store U))
     \<and> (\<forall>(n, m) \<in> set (u_modules U). mod_ok U m)
     \<and> (\<forall>(fid, f) \<in> set (u_store U). fid < u_next U \<and> f_module f \<in> fst ` set (u_modules U))"

text \<open>The registry operations as steps, and the loader \<open>new Umd()\<close> with \<open>_LOADER_ID_COUNTER = 1\<close>.\<close>

datatype 'v umd_op = OpGetModule string | OpGetFile string | OpModGetFile string string "nat option"
  | OpRemoveMatched string | OpDefine "script option" "'v darg" "'v darg" "'v darg"
  | OpRequire string string "nat option" | OpGetPlugins string string

definition umd_step :: "location \<Rightarrow> html_meta \<Rightarrow> (string \<Rightarrow> bool) \<Rightarrow> 'v umd_op \<Rightarrow> 'v umd \<Rightarrow> 'v umd" where
  "umd_step L M amdl op U =
     (case op of
        OpGetModule n \<Rightarrow> snd (getModule M n U)
      | OpGetFile u \<Rightarrow> snd (getFile M u U)
      | OpModGetFile m p r \<Rightarrow> snd (mod_getFile L M m p r U)
      | OpRemoveMatched u \<Rightarrow> snd (removeFileMatched L M u U)
      | OpDefine cur a1 a2 a3 \<Rightarrow> snd (amd_define M amdl cur a1 a2 a3 U)
      | OpRequire m n r \<Rightarrow> snd (requireExports L M m n r U)
      | OpGetPlugins m p \<Rightarrow> snd (getPlugins m p U))"

definition umd_init :: "'v umd" where
  "umd_init = \<lparr>u_files = [], u_store = [], u_next = 0, u_modules = [], u_counter = 1\<rparr>"

section \<open>The registry stays well formed\<close>

lemma ref_ok_mono: "fst ` set (u_store U) \<subseteq> fst ` set (u_store U') \<Longrightarrow> ref_ok U r \<Longrightarrow> ref_ok U' r"
  by (cases r) auto

lemma mod_ok_mono: "fst ` set (u_store U) \<subseteq> fst ` set (u_store U') \<Longrightarrow> mod_ok U m \<Longrightarrow> mod_ok U' m"
  unfolding mod_ok_def using ref_ok_mono by fast

lemma mod_ok_store: "u_store U' = u_store U \<Longrightarrow> mod_ok U' m = mod_ok U m"
  using mod_ok_mono [of U U' m] mod_ok_mono [of U' U m] by auto

lemma getModule_wf:
  assumes "umd_wf U"
  shows "umd_wf (snd (getModule M n U))"
proof (cases "map_of (u_modules U) (if n = [] then ''/'' else n)")
  case None
  let ?n = "if n = [] then ''/'' else n"
  let ?U = "U\<lparr>u_modules := jm_set ?n (new_module M ?n) (u_modules U)\<rparr>"
  have new: "mod_ok ?U (new_module M ?n)" by (simp add: mod_ok_def new_module_def)
  have old: "mod_ok ?U m" if "mod_ok U m" for m by (rule mod_ok_mono [OF _ that]) simp
  have "umd_wf ?U"
    unfolding umd_wf_def
  proof (intro conjI)
    show "\<forall>(k, m) \<in> set (u_modules ?U). mod_ok ?U m"
      using assms new old by (auto simp: umd_wf_def dest!: in_jm_set)
    show "\<forall>(fid, f) \<in> set (u_store ?U). fid < u_next ?U \<and> f_module f \<in> fst ` set (u_modules ?U)"
      using assms by (auto simp: umd_wf_def)
  qed (use assms in \<open>simp_all add: umd_wf_def\<close>)
  then show ?thesis using None by (simp add: getModule_def Let_def)
qed (use assms in \<open>simp add: getModule_def Let_def\<close>)

lemma getModule_simps:
  "u_store (snd (getModule M n U)) = u_store U" "u_files (snd (getModule M n U)) = u_files U"
  "u_next (snd (getModule M n U)) = u_next U" "u_counter (snd (getModule M n U)) = u_counter U"
  "fst (getModule M n U) \<in> fst ` set (u_modules (snd (getModule M n U)))"
  "fst ` set (u_modules U) \<subseteq> fst ` set (u_modules (snd (getModule M n U)))"
  by (auto simp: getModule_def Let_def intro: rev_image_eqI dest: map_of_SomeD split: option.splits)

lemma wf_fresh: "umd_wf U \<Longrightarrow> u_next U \<notin> fst ` set (u_store U)"
  by (auto simp: umd_wf_def)

lemma getFile_wf:
  assumes "umd_wf U"
  shows "umd_wf (snd (getFile M url U)) \<and>
         (\<forall>fid. fst (getFile M url U) = Inr fid \<longrightarrow> fid \<in> fst ` set (u_store (snd (getFile M url U))))"
proof (cases "decodeURIComponent url")
  case (Some u)
  show ?thesis
  proof (cases "map_of (u_files U) u")
    case (Some fid)
    then have "fid \<in> fst ` set (u_store U)"
      using assms by (auto simp: umd_wf_def dest!: map_of_SomeD)
    then show ?thesis using assms \<open>decodeURIComponent url = Some u\<close> Some by (simp add: getFile_def)
  next
    case None
    obtain m U1 where g: "getModule M ''/'' U = (m, U1)" by fastforce
    have w1: "umd_wf U1" using getModule_wf [OF assms, of M "''/''"] g by simp
    have m: "m \<in> fst ` set (u_modules U1)" using getModule_simps(5) [of M "''/''" U] g by simp
    have fr: "u_next U1 \<notin> fst ` set (u_store U1)" using wf_fresh [OF w1] .
    let ?f = "\<lparr>f_url = u, f_module = m, f_chunks = [], f_default = None\<rparr> :: 'a ufile"
    let ?U = "U1\<lparr>u_files := jm_set u (u_next U1) (u_files U1),
                 u_store := jm_set (u_next U1) ?f (u_store U1), u_next := Suc (u_next U1)\<rparr>"
    have st: "fst ` set (u_store U1) \<subseteq> fst ` set (u_store ?U)" by auto
    have "umd_wf ?U"
      unfolding umd_wf_def
    proof (intro conjI)
      show "\<forall>(k, fid) \<in> set (u_files ?U). fid \<in> fst ` set (u_store ?U)"
        using w1 by (auto simp: umd_wf_def dest!: in_jm_set)
      show "\<forall>(n, x) \<in> set (u_modules ?U). mod_ok ?U x"
        using w1 mod_ok_mono [OF st] by (auto simp: umd_wf_def)
      show "\<forall>(fid, f) \<in> set (u_store ?U). fid < u_next ?U \<and> f_module f \<in> fst ` set (u_modules ?U)"
      proof
        fix x assume "x \<in> set (u_store ?U)"
        then have "x = (u_next U1, ?f) \<or> x \<in> set (u_store U1)" by (simp add: in_jm_set)
        then show "case x of (fid, f) \<Rightarrow> fid < u_next ?U \<and> f_module f \<in> fst ` set (u_modules ?U)"
        proof
          assume "x \<in> set (u_store U1)"
          moreover have "\<forall>(fid, f) \<in> set (u_store U1). fid < u_next U1 \<and> f_module f \<in> fst ` set (u_modules U1)"
            using w1 by (simp add: umd_wf_def)
          ultimately show ?thesis by (cases x) auto
        qed (use m in simp)
      qed
    qed (use w1 in \<open>simp_all add: umd_wf_def\<close>)
    then show ?thesis using \<open>decodeURIComponent url = Some u\<close> None g by (simp add: getFile_def Let_def)
  qed
qed (use assms in \<open>simp add: getFile_def\<close>)

lemma upd_module_wf:
  assumes "umd_wf U" "\<And>m. mod_ok U m \<Longrightarrow> mod_ok U (g m)"
  shows "umd_wf (upd_module n g U)"
proof (cases "map_of (u_modules U) n")
  case (Some m)
  have ok: "mod_ok U m" using assms(1) Some by (auto simp: umd_wf_def dest!: map_of_SomeD)
  let ?U = "U\<lparr>u_modules := jm_set n (g m) (u_modules U)\<rparr>"
  have keys: "fst ` set (u_modules ?U) = fst ` set (u_modules U)"
    using Some by (auto intro: rev_image_eqI dest: map_of_SomeD)
  have "umd_wf ?U"
    unfolding umd_wf_def
  proof (intro conjI)
    show "\<forall>(k, x) \<in> set (u_modules ?U). mod_ok ?U x"
      using assms(1) assms(2) [OF ok] mod_ok_store [of ?U U] by (auto simp: umd_wf_def dest!: in_jm_set)
    show "\<forall>(fid, f) \<in> set (u_store ?U). fid < u_next ?U \<and> f_module f \<in> fst ` set (u_modules ?U)"
      using assms(1) unfolding keys by (simp add: umd_wf_def)
  qed (use assms(1) in \<open>simp_all add: umd_wf_def\<close>)
  then show ?thesis using Some by (simp add: upd_module_def)
qed (use assms in \<open>simp add: upd_module_def\<close>)

lemma upd_file_wf:
  assumes "umd_wf U" "\<And>f. f_module (g f) \<in> fst ` set (u_modules U) \<or> f_module (g f) = f_module f"
  shows "umd_wf (upd_file fid g U)"
proof (cases "map_of (u_store U) fid")
  case (Some f)
  let ?U = "U\<lparr>u_store := jm_set fid (g f) (u_store U)\<rparr>"
  have keys: "fst ` set (u_store ?U) = fst ` set (u_store U)"
    using Some by (auto intro: rev_image_eqI dest: map_of_SomeD)
  have old: "(fid, f) \<in> set (u_store U)" using Some by (rule map_of_SomeD)
  have st: "\<forall>(i, h) \<in> set (u_store U). i < u_next U \<and> f_module h \<in> fst ` set (u_modules U)"
    using assms(1) by (simp add: umd_wf_def)
  have "umd_wf ?U"
    unfolding umd_wf_def
  proof (intro conjI)
    show "\<forall>(k, x) \<in> set (u_modules ?U). mod_ok ?U x"
      using assms(1) mod_ok_mono [of U ?U] keys by (auto simp: umd_wf_def)
    show "\<forall>(i, h) \<in> set (u_store ?U). i < u_next ?U \<and> f_module h \<in> fst ` set (u_modules ?U)"
    proof
      fix x assume "x \<in> set (u_store ?U)"
      then have "x = (fid, g f) \<or> x \<in> set (u_store U)" by (simp add: in_jm_set)
      then show "case x of (i, h) \<Rightarrow> i < u_next ?U \<and> f_module h \<in> fst ` set (u_modules ?U)"
        using st old assms(2) [of f] by auto
    qed
  qed (use assms(1) keys in \<open>simp_all add: umd_wf_def\<close>)
  then show ?thesis using Some by (simp add: upd_file_def)
qed (use assms in \<open>simp add: upd_file_def\<close>)

lemma delete_file_wf: "umd_wf U \<Longrightarrow> umd_wf (U\<lparr>u_files := jm_delete k (u_files U)\<rparr>)"
  using mod_ok_store [of "U\<lparr>u_files := jm_delete k (u_files U)\<rparr>" U] by (auto simp: umd_wf_def dest!: in_jm_delete)

lemma ubind_wf:
  assumes "umd_wf (snd r)" "\<And>a. fst r = Inr a \<Longrightarrow> umd_wf (snd (f a (snd r)))"
  shows "umd_wf (snd (ubind r f))"
  using assms by (cases r) (auto simp: ubind_def split: sum.splits)

lemma getFile_keys: "fst ` set (u_modules U) \<subseteq> fst ` set (u_modules (snd (getFile M url U)))"
proof (cases "getModule M ''/'' U")
  case (Pair m U1)
  then have "fst ` set (u_modules U) \<subseteq> fst ` set (u_modules U1)"
    using getModule_simps(6) [of U M "''/''"] by simp
  then show ?thesis using Pair by (simp add: getFile_def Let_def split: option.splits)
qed

lemma upd_file_simps:
  "fst ` set (u_store (upd_file fid g U)) = fst ` set (u_store U)"
  "u_modules (upd_file fid g U) = u_modules U"
  by (auto simp: upd_file_def intro: rev_image_eqI dest: map_of_SomeD split: option.splits)

lemma get_module_key: "get_module n U = Inr m \<Longrightarrow> n \<in> fst ` set (u_modules U)"
  by (auto simp: get_module_def intro: rev_image_eqI dest: map_of_SomeD split: option.splits)

lemma mod_getFile_add:
  assumes "umd_wf U1" "fid \<in> fst ` set (u_store U1)" "mname \<in> fst ` set (u_modules U1)"
  shows "umd_wf (upd_module mname (\<lambda>m. m\<lparr>um_files := jm_set i fid (um_files m)\<rparr>)
                   (upd_file fid (\<lambda>f. f\<lparr>f_module := mname\<rparr>) U1))"
proof -
  let ?U = "upd_file fid (\<lambda>f. f\<lparr>f_module := mname\<rparr>) U1"
  have w: "umd_wf ?U" using assms by (intro upd_file_wf) auto
  have "fid \<in> fst ` set (u_store ?U)" using assms(2) by (simp add: upd_file_simps)
  then show ?thesis using w
    by (intro upd_module_wf) (auto simp: mod_ok_def dest!: in_jm_set)
qed

lemma mod_getFile_wf:
  assumes "umd_wf U"
  shows "umd_wf (snd (mod_getFile L M mname path ref U))"
proof (cases "get_module mname U")
  case (Inr m)
  have key: "mname \<in> fst ` set (u_modules U)" using get_module_key [OF Inr] .
  have step: "umd_wf (snd (ubind (getFile M i U) (\<lambda>fid U1.
                (Inr fid, upd_module mname (\<lambda>m. m\<lparr>um_files := jm_set i fid (um_files m)\<rparr>)
                             (upd_file fid (\<lambda>f. f\<lparr>f_module := mname\<rparr>) U1)))))" for i
  proof (rule ubind_wf)
    show "umd_wf (snd (getFile M i U))" using getFile_wf [OF assms] by blast
    fix fid assume "fst (getFile M i U) = Inr fid"
    then show "umd_wf (snd (Inr fid, upd_module mname (\<lambda>m. m\<lparr>um_files := jm_set i fid (um_files m)\<rparr>)
                   (upd_file fid (\<lambda>f. f\<lparr>f_module := mname\<rparr>) (snd (getFile M i U)))))"
      using getFile_wf [OF assms, of M i] getFile_keys [of U M i] key
      by (simp add: mod_getFile_add subsetD)
  qed
  show ?thesis using Inr assms step
    by (simp add: mod_getFile_def split: sum.splits option.splits)
qed (use assms in \<open>simp add: mod_getFile_def\<close>)

lemma mod_removeFile_wf: "umd_wf U \<Longrightarrow> umd_wf (snd (mod_removeFile L M mname path U))"
  unfolding mod_removeFile_def
  by (auto split: sum.splits option.splits intro!: upd_module_wf simp: mod_ok_def dest!: in_jm_delete)

lemma remove_step_wf: "umd_wf U \<Longrightarrow> umd_wf (snd (remove_step L M pre k U))"
  unfolding remove_step_def
  by (auto split: option.splits sum.splits intro!: ubind_wf delete_file_wf mod_removeFile_wf)

lemma remove_loop_wf: "umd_wf U \<Longrightarrow> umd_wf (snd (remove_loop L M pre ks U))"
proof (induction ks arbitrary: U)
  case (Cons k ks)
  show ?case by (simp, rule ubind_wf) (auto intro: Cons.IH remove_step_wf Cons.prems)
qed simp

lemma removeFileMatched_wf: "umd_wf U \<Longrightarrow> umd_wf (snd (removeFileMatched L M url U))"
  by (simp add: removeFileMatched_def remove_loop_wf split: option.splits)

lemma getChildChunk_module [simp]: "f_module (getChildChunk n f) = f_module f"
  by (simp add: getChildChunk_def split: option.splits)

lemma getDefaultModule_module [simp]: "f_module (getDefaultModule f) = f_module f"
  by (simp add: getDefaultModule_def split: option.splits)

lemma store_set_wf:
  assumes "umd_wf U" "map_of (u_store U) fid = Some f" "f_module f' = f_module f"
  shows "umd_wf (U\<lparr>u_store := jm_set fid f' (u_store U)\<rparr>)"
proof -
  have "upd_file fid (\<lambda>_. f') U = U\<lparr>u_store := jm_set fid f' (u_store U)\<rparr>"
    using assms(2) by (simp add: upd_file_def)
  moreover have "f_module f \<in> fst ` set (u_modules U)"
    using assms(1,2) by (auto simp: umd_wf_def dest!: map_of_SomeD)
  then have "umd_wf (upd_file fid (\<lambda>_. f') U)"
    using assms by (intro upd_file_wf) auto
  ultimately show ?thesis by simp
qed

lemma counter_wf: "umd_wf U \<Longrightarrow> umd_wf (U\<lparr>u_counter := c\<rparr>)"
  using mod_ok_store [of "U\<lparr>u_counter := c\<rparr>" U] by (simp add: umd_wf_def)

lemma get_file_set_wf:
  "umd_wf U \<Longrightarrow> get_file fid U = Inr f \<Longrightarrow> f_module f' = f_module f
   \<Longrightarrow> umd_wf (U\<lparr>u_store := jm_set fid f' (u_store U)\<rparr>)"
  by (rule store_set_wf) (auto simp: get_file_def split: option.splits)

lemma getFile_wf': "umd_wf U \<Longrightarrow> umd_wf (snd (getFile M url U))"
  using getFile_wf by blast

lemma amd_define_wf:
  assumes "umd_wf U"
  shows "umd_wf (snd (amd_define M amdl cur a1 a2 a3 U))"
proof -
  have body: "umd_wf (snd (ubind (getFile M sid U1) (\<lambda>fid U2.
      case get_file fid U2 of Inl err \<Rightarrow> (Inl err, U2)
      | Inr f \<Rightarrow> (case get_module (f_module f) U2 of Inl err \<Rightarrow> (Inl err, U2)
                 | Inr m \<Rightarrow> (Inr (r fid), U2\<lparr>u_store := jm_set fid (F f m) (u_store U2)\<rparr>)))))"
    if "umd_wf U1" "\<And>f m. f_module (F f m) = f_module f" for sid U1 r F
  proof (rule ubind_wf)
    show "umd_wf (snd (getFile M sid U1))" using getFile_wf' [OF that(1)] .
    fix fid
    show "umd_wf (snd (case get_file fid (snd (getFile M sid U1)) of Inl err \<Rightarrow> (Inl err, snd (getFile M sid U1))
      | Inr f \<Rightarrow> (case get_module (f_module f) (snd (getFile M sid U1)) of Inl err \<Rightarrow> (Inl err, snd (getFile M sid U1))
                 | Inr m \<Rightarrow> (Inr (r fid), snd (getFile M sid U1)\<lparr>u_store := jm_set fid (F f m) (u_store (snd (getFile M sid U1)))\<rparr>))))"
      using getFile_wf' [OF that(1)] that(2)
      by (auto split: sum.splits intro!: get_file_set_wf)
  qed
  show ?thesis
    unfolding amd_define_def Let_def
    by (auto split: option.splits prod.splits intro!: body counter_wf assms)
qed

lemma find_in_files_ok: "find_in_files U name fs = Some c \<Longrightarrow> ref_ok U c"
  by (induction U name fs rule: find_in_files.induct)
     (auto split: option.splits if_splits dest: map_of_Some_key)

lemma find_chunk_ok: "find_chunk U m name = Some c \<Longrightarrow> ref_ok U c"
  by (auto simp: find_chunk_def find_in_files_ok split: option.splits)

lemma getPlugins_wf: "umd_wf U \<Longrightarrow> umd_wf (snd (getPlugins mname p U))"
  unfolding getPlugins_def
  by (auto split: option.splits intro!: upd_module_wf simp: mod_ok_def find_chunk_ok dest!: in_jm_set)

lemma mod_ok_plugin_children:
  assumes "mod_ok U m" "map_of (um_plugins m) p = Some pl"
  shows "mod_ok U (m\<lparr>um_plugins := jm_set p (pl\<lparr>pl_children := c\<rparr>) (um_plugins m)\<rparr>)"
proof -
  have "ref_ok U (pl_chunk pl)" using assms by (fastforce simp: mod_ok_def dest: map_of_SomeD)
  then show ?thesis using assms(1) by (fastforce simp: mod_ok_def dest!: in_jm_set)
qed

lemma plugin_getChunk_wf: "umd_wf U \<Longrightarrow> umd_wf (plugin_getChunk mname p name U)"
  unfolding plugin_getChunk_def
  by (rule upd_module_wf) (auto split: option.splits intro: mod_ok_plugin_children)

lemma getPlugins_wf': "umd_wf U \<Longrightarrow> getPlugins mname p U = (ok, U1) \<Longrightarrow> umd_wf U1"
  using getPlugins_wf [of U mname p] by simp

lemma getModule_wf': "umd_wf U \<Longrightarrow> getModule M n U = (pn, U1) \<Longrightarrow> umd_wf U1"
  using getModule_wf [of U M n] by simp

lemma ubind_TFile_wf:
  "umd_wf (snd r) \<Longrightarrow> umd_wf (snd (ubind r (\<lambda>fid U1. (Inr (TFile fid), U1))))"
  by (rule ubind_wf) auto

lemma require_npm_wf:
  assumes "umd_wf U"
  shows "umd_wf (snd (require_npm L M n1 ext ref U))"
proof (cases "match_pkg n1")
  case (Some pf)
  obtain pkg fl where pf: "pf = (pkg, fl)" by fastforce
  obtain pn U1 where g: "getModule M pkg U = (pn, U1)" by fastforce
  have "umd_wf U1" using getModule_wf' [OF assms g] .
  then show ?thesis using Some pf g by (simp add: require_npm_def ubind_TFile_wf mod_getFile_wf)
qed (use assms in \<open>simp add: require_npm_def\<close>)

lemma require_plugin_wf:
  assumes "umd_wf U"
  shows "umd_wf (snd (let (ok, U1) = getPlugins mname p U
                      in if \<not> ok then (Inr TNone, U1)
                         else (Inr (TChunk (CPlug p name)), plugin_getChunk mname p name U1)))"
proof -
  obtain ok U1 where g: "getPlugins mname p U = (ok, U1)" by fastforce
  have "umd_wf U1" using getPlugins_wf' [OF assms g] .
  then show ?thesis using g by (simp add: plugin_getChunk_wf)
qed

lemma requireExports_wf:
  assumes "umd_wf U"
  shows "umd_wf (snd (requireExports L M mname name ref U))"
proof -
  have path: "umd_wf (snd (ubind (mod_getFile L M mname q ref U) (\<lambda>fid U1. (Inr (TFile fid), U1))))" for q
    using assms by (simp add: ubind_TFile_wf mod_getFile_wf)
  note pkg = require_npm_wf [OF assms] and plug = require_plugin_wf [OF assms]
  show ?thesis
  proof (cases "get_module mname U")
    case (Inr m)
    show ?thesis
    proof (cases "find_chunk U m name")
      case None
      show ?thesis
      proof (cases "bang_match name")
        case (Some pc)
        then show ?thesis using Inr None plug
          by (cases pc) (simp add: requireExports_def)
      next
        case None2: None
        consider e where "mod_findFile L M mname name None U = Inl e"
          | fid where "mod_findFile L M mname name None U = Inr (Some fid)"
          | "mod_findFile L M mname name None U = Inr None"
          by (metis option.exhaust sumE)
        then show ?thesis
          by cases (use Inr None None2 assms path pkg in \<open>simp_all add: requireExports_def Let_def\<close>)
      qed
    qed (use Inr assms in \<open>simp add: requireExports_def\<close>)
  qed (use assms in \<open>simp add: requireExports_def\<close>)
qed

lemma umd_step_wf: "umd_wf U \<Longrightarrow> umd_wf (umd_step L M amdl op U)"
  by (cases op) (simp_all add: umd_step_def getModule_wf getFile_wf' mod_getFile_wf removeFileMatched_wf
                               amd_define_wf requireExports_wf getPlugins_wf)

text \<open>
  Whatever sequence of loader operations runs from the initial loader, errors
  included, the registry stays well formed: every file id held by the loader, by a
  package or by a plugin is allocated in the store, below the next fresh id, and every
  file belongs to a registered package.
\<close>

theorem umd_wf_reachable: "umd_wf (foldl (\<lambda>U op. umd_step L M amdl op U) umd_init ops)"
proof (rule foldl_invariant)
  show "umd_wf umd_init" by (simp add: umd_init_def umd_wf_def)
qed (rule umd_step_wf)

section \<open>Functional properties\<close>

lemma getFile_idem:
  assumes "fst (getFile M url U) = Inr fid"
  shows "getFile M url (snd (getFile M url U)) = (Inr fid, snd (getFile M url U))"
proof (cases "decodeURIComponent url")
  case (Some u)
  show ?thesis
  proof (cases "map_of (u_files U) u")
    case None
    obtain m U1 where g: "getModule M ''/'' U = (m, U1)" by fastforce
    then show ?thesis using assms Some None by (simp add: getFile_def Let_def)
  qed (use assms Some in \<open>simp add: getFile_def\<close>)
qed (use assms in \<open>simp add: getFile_def\<close>)

lemma hd_last_keys: "xs \<noteq> [] \<Longrightarrow> hd (map fst xs) \<in> fst ` set xs \<and> last (map fst xs) \<in> fst ` set xs"
  by (induction xs) auto

lemma select_export_chunk:
  "select_export info f = SelChunk k \<Longrightarrow> k \<in> set (jm_keys (f_chunks f))"
  by (auto simp: select_export_def Let_def hd_last_keys split: if_splits option.splits
           dest: find_Some_iff [THEN iffD1])

lemma select_export_some:
  "f_chunks f \<noteq> [] \<or> f_default f \<noteq> None \<Longrightarrow> select_export info f \<noteq> SelNone"
  by (auto simp: select_export_def Let_def split: option.splits)

lemma expand_deps_set:
  "set (expand_deps pkgDeps deps) =
     (if ''*'' \<in> set deps then set pkgDeps \<union> (set deps - {''*''}) else set deps)"
  by (auto simp: expand_deps_def)

lemma expand_deps_no_star: "''*'' \<notin> set pkgDeps \<Longrightarrow> ''*'' \<notin> set (expand_deps pkgDeps deps)"
  by (simp add: expand_deps_set)

subsection \<open>Decoding twice\<close>

text \<open>
  \<open>_UmdModule._getFile\<close> decodes the id it computes and \<open>Umd.getFile\<close> decodes it
  again. A file whose name holds \<open>%\<close> (required as \<open>%25\<close>) makes the second decoding
  throw; a name holding an escaped escape is registered under two different keys, so
  \<open>removeFileMatched\<close> drops the loader's entry and leaves the package's, which still
  resolves the path to the dropped file.
\<close>

lemma double_decode_throws:
  "let L = \<lparr>loc_origin = ''http://h'', loc_pathname = ''/index.html'', loc_protocol = ''http:'', loc_host = ''h''\<rparr>;
       U1 = snd (getModule (meta_init L) ''p'' (umd_init :: unit umd))
   in mod_getFile L (meta_init L) ''p'' ''100%25.js'' None U1 = (Inl URIError, U1)"
  by code_simp

lemma double_decode_stale_file:
  "let L = \<lparr>loc_origin = ''http://h'', loc_pathname = ''/index.html'', loc_protocol = ''http:'', loc_host = ''h''\<rparr>;
       M = meta_init L; U1 = snd (getModule M ''p'' (umd_init :: unit umd));
       U2 = snd (mod_getFile L M ''p'' ''a%2541.js'' None U1);
       U3 = snd (removeFileMatched L M ''http://h/node_modules/p/aA'' U2)
   in u_files U2 = [(''http://h/node_modules/p/aA.js'', 0)]
      \<and> mod_findFile L M ''p'' ''a%2541.js'' None U3 = Inr (Some 0)
      \<and> findFile ''http://h/node_modules/p/aA.js'' U3 = Inr None"
  by code_simp

end
