(* ===== verification/HotLoader.thy ===== *)
theory HotLoader
  imports UmdLoader
begin

text \<open>
  Hot reloading in development (\<open>HotLoader.ts\<close>). A change notice from the development
  server names a file path; the listener of \<open>wc-hotload\<close> turns it into a component
  name, and \<open>_doHotUpdate\<close> drops the component's script files from the loader
  (\<open>Umd.removeFileMatched\<close>), reloads the page's tag (\<open>_updateTag\<close>), and then does
  the same for the package's files and tag. \<open>_updateTag\<close> is a parameter of the
  model: its template reload (\<open>new _Tpl\<close>, \<open>customElements\<close>,
  \<open>_replaceWithNewTag\<close>) is DOM work, but its effect on the loader is threaded
  through. The websocket connection is not modelled; an exception of
  \<open>removeFileMatched\<close> or a rejection of \<open>_updateTag\<close> rejects the update, the
  \<open>Inl\<close> of the result.
\<close>

text \<open>
  \<open>path.replace(/\..+?$/, '')\<close>: from the first dot that is followed by at least one
  character and no line break up to the end; then backslashes become slashes.
\<close>

fun strip_ext :: "string \<Rightarrow> string" where
  "strip_ext [] = []"
| "strip_ext (c # s) =
     (if c = CHR ''.'' \<and> s \<noteq> [] \<and> (\<forall>x \<in> set s. x \<noteq> CHR 0x0A \<and> x \<noteq> CHR 0x0D) then []
      else c # strip_ext s)"

definition hot_component :: "string \<Rightarrow> string" where
  "hot_component path = replace_all (CHR 0x5C) ''/'' (strip_ext path)"

text \<open>The URL of the page's own component: the root (or the origin), the page's directory, the name.\<close>

definition hot_url :: "location \<Rightarrow> html_meta \<Rightarrow> string \<Rightarrow> string" where
  "hot_url L M component =
     joinUrl [Some (case truthy (meta_root M) of Some r \<Rightarrow> r | None \<Rightarrow> loc_origin L),
              Some (dirname_path (loc_pathname L) @ component)]"

text \<open>
  \<open>_updateTag(upTag)\<close> reloads the tag's template (\<open>new _Tpl\<close>, whose \<open>_getFile\<close>
  fetches the component's files through the loader again, \<open>Tpl.ts\<close>) and replaces
  its elements. The model takes its effect on the loader as the parameter \<open>upd\<close>; a
  rejection of it is an \<open>Inl\<close>. The tags it is called with are returned in order.
\<close>

text \<open>
  The second half of \<open>_doHotUpdate\<close>: when the package is loaded, the package's files
  of the component are dropped and the package's tag is reloaded.
\<close>

definition hot_pkg ::
  "location \<Rightarrow> html_meta \<Rightarrow> (string \<Rightarrow> 'v umd \<Rightarrow> ('v, unit) uresult) \<Rightarrow> string option \<Rightarrow> string \<Rightarrow> 'v umd
   \<Rightarrow> ('v, string list) uresult" where
  "hot_pkg L M upd upPkg component U =
     (case truthy upPkg of
        None \<Rightarrow> (Inr [], U)
      | Some pkg \<Rightarrow>
          (case findModule pkg U of
             None \<Rightarrow> (Inr [], U)
           | Some m \<Rightarrow>
               (let tag2 = buildTag (Some pkg) component
                in ubind (removeFileMatched L M (mod_toUrl L M (um_info m) component) U)
                     (\<lambda>_ U2. ubind (upd tag2 U2) (\<lambda>_ U3. (Inr [tag2], U3))))))"

definition hot_update ::
  "location \<Rightarrow> html_meta \<Rightarrow> (string \<Rightarrow> 'v umd \<Rightarrow> ('v, unit) uresult) \<Rightarrow> string option \<Rightarrow> string \<Rightarrow> 'v umd
   \<Rightarrow> ('v, string list) uresult" where
  "hot_update L M upd upPkg component U =
     (let tag1 = buildTag (Some []) component
      in ubind (removeFileMatched L M (hot_url L M component) U)
           (\<lambda>_ U1. ubind (upd tag1 U1)
              (\<lambda>_ U2. ubind (hot_pkg L M upd upPkg component U2) (\<lambda>tags U3. (Inr (tag1 # tags), U3)))))"

definition no_match :: "string \<Rightarrow> 'v umd \<Rightarrow> bool" where
  "no_match pre U \<longleftrightarrow> (\<forall>k \<in> fst ` set (u_files U). \<not> starts_with k (pre @ ''.''))"

lemma mod_removeFile_files: "mod_removeFile L M n k U = (r, U') \<Longrightarrow> u_files U' = u_files U"
  unfolding mod_removeFile_def upd_module_def
  by (auto split: sum.splits option.splits)

lemma remove_step_files:
  assumes ok: "fst (remove_step L M pre k U) = Inr ()"
  shows "fst ` set (u_files (snd (remove_step L M pre k U))) \<subseteq> fst ` set (u_files U)
   \<and> (starts_with k (pre @ ''.'') \<longrightarrow> k \<notin> fst ` set (u_files (snd (remove_step L M pre k U))))"
proof (cases "starts_with k (pre @ ''.'')")
  case True
  show ?thesis
  proof (cases "map_of (u_files U) k")
    case None
    then show ?thesis using ok True by (simp add: remove_step_def)
  next
    case (Some fid)
    show ?thesis
    proof (cases "get_file fid U")
      case (Inl e)
      then show ?thesis using ok True Some by (simp add: remove_step_def)
    next
      case (Inr f)
      obtain r U1 where m: "mod_removeFile L M (f_module f) k U = (r, U1)" by fastforce
      have U1: "u_files U1 = u_files U" using mod_removeFile_files [OF m] .
      have step: "remove_step L M pre k U = ubind (r, U1) (\<lambda>_ U1. (Inr (), U1\<lparr>u_files := jm_delete k (u_files U1)\<rparr>))"
        using True Some Inr m by (simp add: remove_step_def)
      have r: "r = Inr ()" using ok step by (cases r) (simp_all add: ubind_def)
      have "snd (remove_step L M pre k U) = U1\<lparr>u_files := jm_delete k (u_files U1)\<rparr>"
        using step r by (simp add: ubind_def)
      then show ?thesis using U1 by (auto dest: in_jm_delete simp: jm_delete_def)
    qed
  qed
next
  case False
  then show ?thesis by (simp add: remove_step_def)
qed

lemma remove_loop_Cons_ok:
  "remove_step L M pre k U = (Inr (), U1) \<Longrightarrow> remove_loop L M pre (k # ks) U = remove_loop L M pre ks U1"
  by (simp add: ubind_def)

lemma remove_loop_Cons_err:
  "remove_step L M pre k U = (Inl e, U1) \<Longrightarrow> fst (remove_loop L M pre (k # ks) U) = Inl e"
  by (simp add: ubind_def)

lemma remove_loop_files:
  "fst (remove_loop L M pre ks U) = Inr () \<Longrightarrow>
   fst ` set (u_files (snd (remove_loop L M pre ks U))) \<subseteq> fst ` set (u_files U)
   \<and> (\<forall>k \<in> set ks. starts_with k (pre @ ''.'') \<longrightarrow> k \<notin> fst ` set (u_files (snd (remove_loop L M pre ks U))))"
proof (induction ks arbitrary: U)
  case Nil
  show ?case by simp
next
  case (Cons k ks)
  obtain r1 U1 where s: "remove_step L M pre k U = (r1, U1)" by fastforce
  have r1: "r1 = Inr ()"
  proof (cases r1)
    case (Inl e)
    have "fst (remove_loop L M pre (k # ks) U) = Inl e"
      by (rule remove_loop_Cons_err) (use s Inl in simp)
    then show ?thesis using Cons.prems by (simp only: sum.distinct)
  qed simp
  have loop: "remove_loop L M pre (k # ks) U = remove_loop L M pre ks U1"
    by (rule remove_loop_Cons_ok) (use s r1 in simp)
  have st: "fst ` set (u_files U1) \<subseteq> fst ` set (u_files U) \<and> (starts_with k (pre @ ''.'') \<longrightarrow> k \<notin> fst ` set (u_files U1))"
    using remove_step_files [of L M pre k U] unfolding s r1 by simp
  have "fst (remove_loop L M pre ks U1) = Inr ()" using Cons.prems unfolding loop .
  then have ih: "fst ` set (u_files (snd (remove_loop L M pre ks U1))) \<subseteq> fst ` set (u_files U1)
     \<and> (\<forall>k \<in> set ks. starts_with k (pre @ ''.'') \<longrightarrow> k \<notin> fst ` set (u_files (snd (remove_loop L M pre ks U1))))"
    by (rule Cons.IH)
  let ?F = "snd (remove_loop L M pre ks U1)"
  have sub: "fst ` set (u_files ?F) \<subseteq> fst ` set (u_files U)"
    using conjunct1 [OF ih] conjunct1 [OF st] by (rule subset_trans)
  have "k \<notin> fst ` set (u_files ?F)" if "starts_with k (pre @ ''.'')"
    using conjunct1 [OF ih] conjunct2 [OF st] that by blast
  then show ?case unfolding loop using sub conjunct2 [OF ih] by simp
qed

lemma removeFileMatched_files:
  assumes ok: "fst (removeFileMatched L M url U) = Inr ()"
  shows "\<exists>pre. decodeURIComponent url = Some pre
     \<and> fst ` set (u_files (snd (removeFileMatched L M url U))) \<subseteq> fst ` set (u_files U)
     \<and> no_match pre (snd (removeFileMatched L M url U))"
proof (cases "decodeURIComponent url")
  case None
  then show ?thesis using ok by (simp add: removeFileMatched_def)
next
  case (Some pre)
  have eq: "removeFileMatched L M url U = remove_loop L M pre (map fst (u_files U)) U"
    by (simp add: removeFileMatched_def Some)
  have r: "fst (remove_loop L M pre (map fst (u_files U)) U) = Inr ()" using ok eq by simp
  have h: "fst ` set (u_files (snd (remove_loop L M pre (map fst (u_files U)) U))) \<subseteq> fst ` set (u_files U)
     \<and> (\<forall>k \<in> set (map fst (u_files U)). starts_with k (pre @ ''.'') \<longrightarrow>
          k \<notin> fst ` set (u_files (snd (remove_loop L M pre (map fst (u_files U)) U))))"
    using remove_loop_files [OF r] .
  let ?F = "snd (remove_loop L M pre (map fst (u_files U)) U)"
  have nm: "no_match pre ?F"
    unfolding no_match_def
  proof
    fix k assume k: "k \<in> fst ` set (u_files ?F)"
    have kU: "k \<in> set (map fst (u_files U))" using k conjunct1 [OF h] by (simp add: subset_iff)
    show "\<not> starts_with k (pre @ ''.'')" using bspec [OF conjunct2 [OF h] kU] k by blast
  qed
  show ?thesis unfolding eq by (rule exI [of _ pre]) (use Some conjunct1 [OF h] nm in simp)
qed

definition upd_wf :: "(string \<Rightarrow> 'v umd \<Rightarrow> ('v, unit) uresult) \<Rightarrow> bool" where
  "upd_wf upd \<longleftrightarrow> (\<forall>t V. umd_wf V \<longrightarrow> umd_wf (snd (upd t V)))"

lemma hot_pkg_wf: "upd_wf upd \<Longrightarrow> umd_wf U \<Longrightarrow> umd_wf (snd (hot_pkg L M upd upPkg c U))"
  by (auto simp: hot_pkg_def Let_def upd_wf_def removeFileMatched_wf intro!: ubind_wf split: option.splits)

lemma ubind_Inr:
  "ubind r f = (Inr x, V) \<Longrightarrow> \<exists>a W. r = (Inr a, W) \<and> f a W = (Inr x, V)"
  by (cases r) (auto simp: ubind_def split: sum.splits)

text \<open>
  C33 (the reload follows the drop): when \<open>_doHotUpdate\<close> completes, the first tag
  reloaded is the page's own, and its reload ran on the loader from which
  \<open>removeFileMatched\<close> had dropped every file whose URL extends the component's URL
  by an extension, so the reload fetches the component's scripts afresh; with a
  reload that keeps the loader well formed, the loader stays well formed.
\<close>

theorem hot_update_reloads_after_drop:
  assumes r: "hot_update L M upd upPkg c U = (Inr tags, U')"
  shows "hd tags = buildTag (Some []) c
         \<and> (\<exists>pre U1 U2. decodeURIComponent (hot_url L M c) = Some pre
              \<and> removeFileMatched L M (hot_url L M c) U = (Inr (), U1) \<and> no_match pre U1
              \<and> upd (buildTag (Some []) c) U1 = (Inr (), U2))
         \<and> (upd_wf upd \<longrightarrow> umd_wf U \<longrightarrow> umd_wf U')"
proof -
  obtain a U1 where rm: "removeFileMatched L M (hot_url L M c) U = (Inr a, U1)"
    and r1: "ubind (upd (buildTag (Some []) c) U1)
              (\<lambda>_ U2. ubind (hot_pkg L M upd upPkg c U2) (\<lambda>tags U3. (Inr (buildTag (Some []) c # tags), U3)))
            = (Inr tags, U')"
    using ubind_Inr [OF r [unfolded hot_update_def Let_def]] by blast
  obtain b U2 where up: "upd (buildTag (Some []) c) U1 = (Inr b, U2)"
    and r2: "ubind (hot_pkg L M upd upPkg c U2) (\<lambda>tags U3. (Inr (buildTag (Some []) c # tags), U3)) = (Inr tags, U')"
    using ubind_Inr [OF r1] by blast
  obtain ts where pk: "hot_pkg L M upd upPkg c U2 = (Inr ts, U')" and tg: "tags = buildTag (Some []) c # ts"
    using ubind_Inr [OF r2] by auto
  obtain pre where d: "decodeURIComponent (hot_url L M c) = Some pre" and nm: "no_match pre U1"
    using removeFileMatched_files [of L M "hot_url L M c" U] rm by auto
  have wf: "umd_wf U'" if w: "upd_wf upd" "umd_wf U"
  proof -
    have "umd_wf U1" using removeFileMatched_wf [OF w(2), of L M "hot_url L M c"] rm by simp
    then have "umd_wf (snd (upd (buildTag (Some []) c) U1))" using w(1) by (simp add: upd_wf_def)
    then have "umd_wf U2" using up by simp
    then show ?thesis using hot_pkg_wf [OF w(1), of U2 L M upPkg c] pk by simp
  qed
  show ?thesis using tg d rm nm up wf by auto
qed

lemma hot_component_dotted_dir:
  "hot_component (''pages'' @ [CHR 0x5C] @ ''v2.1'' @ [CHR 0x5C] @ ''card.html'') = ''pages/v2''"
  by code_simp

end
