(* ===== verification/WcElem.thy ===== *)
theory WcElem
  imports WcFor HtmlMeta
begin

text \<open>
  What \<open>Wc\<close> (\<open>Wc.ts\<close>) does to one element of a component's template: the attribute
  pass of \<open>_applyElementTemplate\<close> (event, binding and plain attributes, the scope
  the plain and binding attributes initialise), the modifiers and listener options
  of \<open>_createEventBinder\<close> and what its listener does with an event, the dispatch of
  \<open>_applyElemAttr\<close> on the bound property's name, the display and visibility that
  \<open>$show\<close> and \<open>$vis\<close> set, and \<open>_getAniClass\<close>. An element's attributes are its
  attribute list in document order (\<open>meta_el\<close>); style changes are the values of
  \<open>style.display\<close> and \<open>style.visibility\<close> (the empty string when unset).
\<close>

section \<open>Event binders\<close>

text \<open>A modifier sets a flag to \<open>true\<close>, a numeric modifier sets \<open>throttle\<close> to its number.\<close>

datatype flagv = FTrue | FNum jsnum

definition event_flags :: "string list \<Rightarrow> (string, flagv) jsmap" where
  "event_flags mods =
     foldl (\<lambda>fl s. (case parse_int 0 s of NNaN \<Rightarrow> jm_set s FTrue fl | n \<Rightarrow> jm_set ''throttle'' (FNum n) fl)) [] mods"

fun flag_truthy :: "flagv option \<Rightarrow> bool" where
  "flag_truthy None = False"
| "flag_truthy (Some FTrue) = True"
| "flag_truthy (Some (FNum n)) = num_truthy n"

text \<open>\<open>flags.prevent == true\<close>: \<open>true\<close>, or a number equal to 1.\<close>

fun flag_eq_true :: "flagv option \<Rightarrow> bool" where
  "flag_eq_true None = False"
| "flag_eq_true (Some FTrue) = True"
| "flag_eq_true (Some (FNum n)) = (n = NNum 1)"

record ev_spec =
  ev_name :: string
  ev_style :: bool
  ev_passive :: bool
  ev_once :: bool
  ev_capture :: bool
  ev_prevent :: bool
  ev_stop :: bool
  ev_self :: bool

text \<open>
  The binder's key \<open>tid|attName\<close> (\<open>root|attName\<close> on the component's root) must name a
  compiled binder, else \<open>_createEventBinder\<close> throws. The event name is the first
  part of the attribute name without its \<open>@\<close>; a leading \<open>!\<close> marks a style monitor.
\<close>

definition event_key :: "bool \<Rightarrow> string \<Rightarrow> string \<Rightarrow> string" where
  "event_key is_root tid attName = (if is_root then ''root'' else tid) @ ''|'' @ attName"

definition event_spec :: "(string \<Rightarrow> bool) \<Rightarrow> bool \<Rightarrow> string \<Rightarrow> string \<Rightarrow> string + ev_spec" where
  "event_spec has_binder is_root tid attName =
     (let key = event_key is_root tid attName
      in if \<not> has_binder key then Inl key
         else
           (let sp = split_on CHR ''.'' attName;
                fl = event_flags (tl sp);
                e0 = drop 1 (hd sp);
                style = starts_with e0 ''!'';
                f = map_of fl
            in Inr \<lparr>ev_name = (if style then drop 1 e0 else e0), ev_style = style,
                    ev_passive = (if flag_eq_true (f ''prevent'') then False else flag_truthy (f ''passive'')),
                    ev_once = flag_truthy (f ''once''), ev_capture = flag_truthy (f ''capture''),
                    ev_prevent = flag_truthy (f ''prevent''), ev_stop = flag_truthy (f ''stop''),
                    ev_self = flag_truthy (f ''self'')\<rparr>))"

text \<open>
  The listener on one event: whether it calls \<open>preventDefault\<close>, \<open>stopPropagation\<close>,
  and the binder (skipped with \<open>.self\<close> when the target is another element).
\<close>

definition ev_handle :: "ev_spec \<Rightarrow> bool \<Rightarrow> bool \<times> bool \<times> bool" where
  "ev_handle sp target_is_el = (ev_prevent sp, ev_stop sp, \<not> (ev_self sp \<and> \<not> target_is_el))"

section \<open>The attribute pass of \<open>_applyElementTemplate\<close>\<close>

datatype attr_class = AEvent | ABind | ANormal

definition attr_class :: "string \<Rightarrow> attr_class" where
  "attr_class name =
     (if starts_with name ''@'' then AEvent
      else if starts_with name '':'' \<or> starts_with name ''$'' then ABind else ANormal)"

record attr_pass =
  ap_eid :: nat
  ap_scope :: "(string, string) jsmap"
  ap_removed :: "string list"
  ap_lazy :: "(string \<times> string) list"
  ap_binds :: "string list"
  ap_events :: "string list"

text \<open>
  A plain attribute \<open>name.lazy\<close> starts empty in the scope and is removed, its value
  set 50 ms later (\<open>ap_lazy\<close>); another plain attribute initialises its scope name with
  its value; a binding attribute with a name initialises it empty and is removed.
\<close>

definition normal_step :: "(string, string) jsmap \<times> string list \<times> (string \<times> string) list \<Rightarrow> string \<times> string
     \<Rightarrow> (string, string) jsmap \<times> string list \<times> (string \<times> string) list" where
  "normal_step acc att =
     (case (acc, att) of ((sc, rm, lz), (n, v)) \<Rightarrow>
        (let sp = split_on CHR ''.'' n; k = kebabToSnake (sp ! 0)
         in if 1 < length sp \<and> sp ! 1 = ''lazy'' then (jm_set k [] sc, rm @ [n], lz @ [(k, v)])
            else (jm_set k v sc, rm, lz)))"

definition bind_step :: "(string, string) jsmap \<times> string list \<Rightarrow> string \<times> string
     \<Rightarrow> (string, string) jsmap \<times> string list" where
  "bind_step acc att =
     (case (acc, att) of ((sc, rm), (n, v)) \<Rightarrow>
        (let name = split_on CHR ''.'' (drop 1 n) ! 0
         in if name \<noteq> [] then (jm_set (kebabToSnake name) [] sc, rm @ [n]) else (sc, rm)))"

definition attr_pass :: "nat \<Rightarrow> (string, string) jsmap \<Rightarrow> meta_el \<Rightarrow> attr_pass" where
  "attr_pass eid init atts =
     (let normals = filter (\<lambda>(n, v). attr_class n = ANormal) atts;
          binds = filter (\<lambda>(n, v). attr_class n = ABind) atts;
          events = filter (\<lambda>(n, v). attr_class n = AEvent) atts;
          (sc1, rm1, lz) = foldl normal_step (init, [], []) normals;
          (sc2, rm2) = foldl bind_step (sc1, rm1) binds
      in \<lparr>ap_eid = eid, ap_scope = sc2, ap_removed = rm2, ap_lazy = lz,
          ap_binds = map fst binds, ap_events = map fst events\<rparr>)"

text \<open>
  The element's steps after the pass: a \<open><style>\<close> element only gets its style
  binders; any other element gets its data binders, then its event binders (each event
  attribute removed), then \<open>_init$Show\<close>.
\<close>

datatype elem_action = ActStyle | ActData string | ActEvent string | ActInitShow

definition elem_actions :: "string \<Rightarrow> attr_pass \<Rightarrow> elem_action list" where
  "elem_actions tag ap =
     (if to_lower tag = ''style'' then [ActStyle]
      else map ActData (ap_binds ap) @ map ActEvent (ap_events ap) @ [ActInitShow])"

section \<open>\<open>_applyElemAttr\<close>\<close>

datatype attr_apply = ApIf | ApShow | ApVis | ApFor | ApAs | ApNone

text \<open>
  The scope property an attribute binder writes (\<open>_kebabToSnake\<close> of the name before
  the first dot), written only when it differs, and the special handling its name asks for.
\<close>

definition attr_prop :: "string \<Rightarrow> string" where
  "attr_prop attrName = kebabToSnake (split_on CHR ''.'' attrName ! 0)"

definition attr_dispatch :: "string \<Rightarrow> attr_apply" where
  "attr_dispatch prop =
     (if prop = ''if'' then ApIf else if prop = ''show'' then ApShow else if prop = ''vis'' then ApVis
      else if prop \<in> {''sort'', ''filter'', ''for''} then ApFor else if prop = ''as'' then ApAs else ApNone)"

definition applyElemAttr :: "string \<Rightarrow> 'v \<Rightarrow> (string, 'v) jsmap \<Rightarrow> (string, 'v) jsmap \<times> attr_apply" where
  "applyElemAttr attrName result scope =
     (let p = attr_prop attrName
      in ((if map_of scope p = Some result then scope else jm_set p result scope), attr_dispatch p))"

section \<open>\<open>$show\<close> and \<open>$vis\<close>\<close>

record el_disp =
  ed_display :: string
  ed_org :: "string option"
  ed_visibility :: string

text \<open>\<open>_init$Show\<close>: a display other than \<open>none\<close> set on the element is remembered.\<close>

definition init_show :: "el_disp \<Rightarrow> el_disp" where
  "init_show d = (if ed_display d \<noteq> [] \<and> to_lower (ed_display d) \<noteq> ''none'' then d\<lparr>ed_org := Some (ed_display d)\<rparr> else d)"

text \<open>
  \<open>_apply$Show\<close> and \<open>_apply$Vis\<close>: nothing when the scope has no own \<open>show\<close>
  (\<open>vis\<close>); otherwise \<open>_checkBool\<close> of it chooses the remembered display (or none set)
  or \<open>none\<close>, \<open>visible\<close> or \<open>hidden\<close>. \<open>_setDisplayStyle\<close> runs twice when shown, once
  when hidden.
\<close>

definition set_display :: "cbval \<Rightarrow> el_disp \<Rightarrow> el_disp" where
  "set_display v d =
     (if checkBool v then d\<lparr>ed_display := (case ed_org d of Some od \<Rightarrow> od | None \<Rightarrow> [])\<rparr>
      else d\<lparr>ed_display := ''none''\<rparr>)"

definition apply_show :: "cbval option \<Rightarrow> el_disp \<Rightarrow> el_disp" where
  "apply_show sh d =
     (case sh of None \<Rightarrow> d | Some v \<Rightarrow> set_display v (if checkBool v then set_display v d else d))"

definition apply_vis :: "cbval option \<Rightarrow> el_disp \<Rightarrow> el_disp" where
  "apply_vis vi d =
     (case vi of None \<Rightarrow> d | Some v \<Rightarrow> d\<lparr>ed_visibility := (if checkBool v then ''visible'' else ''hidden'')\<rparr>)"

section \<open>\<open>_getAniClass\<close>\<close>

definition ani_default :: "meta_el \<Rightarrow> string \<Rightarrow> string option" where
  "ani_default el state =
     (if has_attr el ''ani''
      then Some ((case get_attr el ''ani'' of Some a \<Rightarrow> if a \<noteq> [] then a else ''ani'' | None \<Rightarrow> ''ani'') @ ''-'' @ state)
      else None)"

definition getAniClass :: "meta_el \<Rightarrow> string \<Rightarrow> string option" where
  "getAniClass el state =
     (case get_attr el (''ani-'' @ state) of
        Some a \<Rightarrow> if a \<noteq> [] then Some a else ani_default el state
      | None \<Rightarrow> ani_default el state)"

section \<open>Properties\<close>

lemma event_flags_keys:
  "k \<noteq> ''throttle'' \<Longrightarrow> map_of (event_flags mods) k = None \<or> map_of (event_flags mods) k = Some FTrue"
proof -
  have "map_of (foldl (\<lambda>fl s. (case parse_int 0 s of NNaN \<Rightarrow> jm_set s FTrue fl | n \<Rightarrow> jm_set ''throttle'' (FNum n) fl)) acc mods) k
          \<in> {None, Some FTrue}" if "map_of acc k \<in> {None, Some FTrue}" "k \<noteq> ''throttle''" for acc
    using that by (induction mods arbitrary: acc) (auto split: jsnum.splits)
  then show "k \<noteq> ''throttle'' \<Longrightarrow> ?thesis" by (simp add: event_flags_def)
qed

lemma flag_truthy_eq_true: "f = None \<or> f = Some FTrue \<Longrightarrow> flag_eq_true f = flag_truthy f"
  by auto

text \<open>
  C36 (\<open>.prevent\<close> listeners are not passive): an event attribute whose modifiers
  ask for \<open>preventDefault\<close> is registered with \<open>passive\<close> false, whatever other
  modifiers it has, so the browser honours the \<open>preventDefault\<close> call.
\<close>

lemma event_prevent_not_passive:
  "event_spec hb r tid att = Inr sp \<Longrightarrow> ev_prevent sp \<Longrightarrow> \<not> ev_passive sp"
  using flag_truthy_eq_true [OF event_flags_keys [of "''prevent''" "tl (split_on CHR ''.'' att)"]]
  by (auto simp: event_spec_def Let_def split: if_splits)

lemma event_spec_missing: "\<not> hb (event_key r tid att) \<Longrightarrow> event_spec hb r tid att = Inl (event_key r tid att)"
  by (simp add: event_spec_def)

lemma event_spec_isl: "isl (event_spec hb r tid att) \<longleftrightarrow> \<not> hb (event_key r tid att)"
  by (simp add: event_spec_def Let_def)

lemma event_spec_example:
  "event_spec (\<lambda>_. True) False ''3'' ''@click.stop.prevent.passive.300'' =
     Inr \<lparr>ev_name = ''click'', ev_style = False, ev_passive = False, ev_once = False, ev_capture = False,
          ev_prevent = True, ev_stop = True, ev_self = False\<rparr>"
  by code_simp

lemma applyElemAttr_scope:
  "map_of (fst (applyElemAttr a r sc)) = (map_of sc)(attr_prop a \<mapsto> r)"
  by (auto simp: applyElemAttr_def Let_def fun_upd_idem)

lemma apply_show_org: "ed_org (apply_show sh d) = ed_org d"
  by (simp add: apply_show_def set_display_def split: option.splits)

lemma apply_show_display:
  "ed_display (apply_show (Some v) d) = (if checkBool v then (case ed_org d of Some od \<Rightarrow> od | None \<Rightarrow> []) else ''none'')"
  by (simp add: apply_show_def set_display_def)

text \<open>Hiding and showing again restores the display the element was written with.\<close>

lemma show_hide_show:
  assumes "ed_display d \<noteq> []" "to_lower (ed_display d) \<noteq> ''none''" "\<not> checkBool f" "checkBool t"
  shows "ed_display (apply_show (Some t) (apply_show (Some f) (init_show d))) = ed_display d
         \<and> ed_display (apply_show (Some f) (init_show d)) = ''none''"
  using assms by (simp add: apply_show_display apply_show_org init_show_def)

lemma style_element_no_events: "to_lower tag = ''style'' \<Longrightarrow> elem_actions tag ap = [ActStyle]"
  by (simp add: elem_actions_def)

lemma attr_pass_partition:
  "length (ap_binds (attr_pass eid init atts)) + length (ap_events (attr_pass eid init atts))
     + length (filter (\<lambda>(n, v). attr_class n = ANormal) atts) = length atts"
proof -
  have "length (filter (\<lambda>(n, v). attr_class n = ABind) atts) + length (filter (\<lambda>(n, v). attr_class n = AEvent) atts)
        + length (filter (\<lambda>(n, v). attr_class n = ANormal) atts) = length atts"
  proof (induction atts)
    case (Cons a atts)
    then show ?case by (cases "attr_class (fst a)") (auto split: prod.splits)
  qed simp
  then show ?thesis by (simp add: attr_pass_def Let_def split: prod.splits)
qed

lemma getAniClass_example:
  "getAniClass [(''ani'', [])] ''enter-from'' = Some ''ani-enter-from''
   \<and> getAniClass [(''ani'', ''fade''), (''ani-leave-to'', ''gone'')] ''leave-to'' = Some ''gone''
   \<and> getAniClass [(''ani-enter-to'', [])] ''enter-to'' = None"
  by code_simp

end
