(* ===== verification/TplCompile.thy ===== *)
theory TplCompile
  imports TplData WcElem
begin

text \<open>
  Compiling a component's template (\<open>Tpl.ts\<close>, class \<open>_Tpl\<close>): \<open>_parseElemTpl\<close> walks
  the template's elements in document order and gives every element that binds
  something (an attribute starting with \<open>: $ @\<close>) or is a custom element (a tag with
  \<open>-\<close>) a template id \<open>tid\<close> from \<open>_tidCounter\<close>; a \<open><style>\<close> element always gets one.
  \<open>_processElem\<close> compiles each binding attribute into a binder function stored under
  \<open>tid|name\<close> (for \<open>:\<close> and \<open>$\<close> alone, one function per text child), and the root's
  bound properties get binders under \<open>root|name\<close>. A binder is the source text handed
  to \<open>new Function\<close>; whether that source compiles is a parameter \<open>compiles\<close> of the
  model (a \<open>SyntaxError\<close> gives the empty binder \<open>() => ""\<close>). A template is a tree of
  elements (tag, attribute list, children; a \<open><template>\<close>'s children are its
  content) and text nodes.
\<close>

datatype tnode = TElem string meta_el "tnode list" | TText string

datatype tbinder = BFn "string list" string | BEmpty | BTexts "tbinder list"

type_synonym compiler = "string list \<Rightarrow> string \<Rightarrow> bool"

text \<open>
  \<open>_mkScopeBinder\<close>: a text template for \<open>:\<close>, an expression for \<open>$\<close>, a statement
  for \<open>@\<close>; \<open>None\<close> when the name starts otherwise (it throws).
\<close>

definition scope_binder :: "compiler \<Rightarrow> string \<Rightarrow> string \<Rightarrow> tbinder option" where
  "scope_binder compiles attrName s =
     (let mk = (\<lambda>ps body. if compiles ps body then BFn ps body else BEmpty)
      in case attrName of
           CHR '':'' # _ \<Rightarrow> Some (mk [''$scope'', ''$el''] (''with($scope){return `'' @ s @ ''`;}''))
         | CHR ''$'' # _ \<Rightarrow> Some (mk [''$scope'', ''$el''] (''with($scope){return '' @ s @ ''}''))
         | CHR ''@'' # _ \<Rightarrow> Some (mk [''$scope'', ''$el'', ''$ev''] (''with($scope){'' @ s @ '';}''))
         | _ \<Rightarrow> None)"

text \<open>A string argument is trimmed; another value is interpolated as JavaScript prints it.\<close>

definition mkScopeBinder :: "compiler \<Rightarrow> string \<Rightarrow> string \<Rightarrow> tbinder option" where
  "mkScopeBinder compiles attrName str = scope_binder compiles attrName (trim str)"

definition isAttrCanBinding :: "string \<Rightarrow> bool" where
  "isAttrCanBinding attrName \<longleftrightarrow> attrName \<noteq> [] \<and> hd attrName \<in> set '':$@''"

record tpl_comp =
  tc_tid :: nat
  tc_binders :: "(string, tbinder) jsmap"
  tc_elems :: "(nat \<times> string) list"

definition binder_key :: "nat \<Rightarrow> string \<Rightarrow> string" where
  "binder_key tid name = string_of_nat tid @ ''|'' @ name"

fun text_children :: "tnode list \<Rightarrow> string list" where
  "text_children [] = []"
| "text_children (TText t # ns) = t # text_children ns"
| "text_children (TElem _ _ _ # ns) = text_children ns"

text \<open>One attribute of \<open>_processElem\<close>: a thrown \<open>_mkScopeBinder\<close> is logged and skipped.\<close>

definition bind_attr :: "compiler \<Rightarrow> nat \<Rightarrow> tnode list \<Rightarrow> (string, tbinder) jsmap \<Rightarrow> string \<times> string
     \<Rightarrow> (string, tbinder) jsmap" where
  "bind_attr compiles tid ch bs att =
     (case att of (n, v) \<Rightarrow>
        if \<not> isAttrCanBinding n then bs
        else if n = '':'' \<or> n = ''$'' then
          jm_set (binder_key tid n) (BTexts (List.map_filter (mkScopeBinder compiles n) (text_children ch))) bs
        else (case mkScopeBinder compiles n v of None \<Rightarrow> bs | Some b \<Rightarrow> jm_set (binder_key tid n) b bs))"

definition processElem :: "compiler \<Rightarrow> string \<Rightarrow> meta_el \<Rightarrow> tnode list \<Rightarrow> tpl_comp \<Rightarrow> meta_el \<times> tpl_comp" where
  "processElem compiles tag atts ch S =
     (let tid = tc_tid S;
          bs = foldl (bind_attr compiles tid ch) (tc_binders S) atts;
          isBind = (\<exists>(n, v) \<in> set atts. isAttrCanBinding n) \<or> CHR ''-'' \<in> set tag
      in if isBind then (jm_set ''tid'' (string_of_nat tid) atts,
                         S\<lparr>tc_tid := Suc tid, tc_binders := bs, tc_elems := tc_elems S @ [(tid, tag)]\<rparr>)
         else (atts, S\<lparr>tc_binders := bs\<rparr>))"

text \<open>
  \<open>_parseElemTpl\<close>: a script keeps no id, a style element always gets one (its rules
  are compiled by the style parser, not modelled), any other element goes through
  \<open>_processElem\<close>; then the element children, in order.
\<close>

fun parseElemTpl :: "compiler \<Rightarrow> tnode \<Rightarrow> tpl_comp \<Rightarrow> tnode \<times> tpl_comp"
and parseChildren :: "compiler \<Rightarrow> tnode list \<Rightarrow> tpl_comp \<Rightarrow> tnode list \<times> tpl_comp" where
  "parseElemTpl compiles (TText t) S = (TText t, S)"
| "parseElemTpl compiles (TElem tag atts ch) S =
     (let (atts', S1) =
        (if to_lower tag = ''script'' then (atts, S)
         else if to_lower tag = ''style'' then
           (jm_set ''tid'' (string_of_nat (tc_tid S)) atts,
            S\<lparr>tc_tid := Suc (tc_tid S), tc_elems := tc_elems S @ [(tc_tid S, tag)]\<rparr>)
         else processElem compiles tag atts ch S);
          (ch', S2) = parseChildren compiles ch S1
      in (TElem tag atts' ch', S2))"
| "parseChildren compiles [] S = ([], S)"
| "parseChildren compiles (n # ns) S =
     (let (n', S1) = parseElemTpl compiles n S; (ns', S2) = parseChildren compiles ns S1 in (n' # ns', S2))"

text \<open>
  The root's binders: every template property whose attribute name starts with
  \<open>@ $ :\<close>, compiled from its parsed value (\<open>show_val\<close> prints a value that is not a string).
\<close>

definition root_binders :: "compiler \<Rightarrow> ('o tval \<Rightarrow> string) \<Rightarrow> (string, 'o tpl_item) jsmap \<Rightarrow> (string, tbinder) jsmap
     \<Rightarrow> (string, tbinder) jsmap" where
  "root_binders compiles show_val props bs =
     foldl (\<lambda>bs (k, p). let n = d_orgName p
                        in if starts_with n ''@'' \<or> starts_with n ''$'' \<or> starts_with n '':''
                           then (case (case d_value p of TVStr v \<Rightarrow> mkScopeBinder compiles n v
                                       | v \<Rightarrow> scope_binder compiles n (show_val v)) of None \<Rightarrow> bs
                                 | Some b \<Rightarrow> jm_set (''root|'' @ n) b bs)
                           else bs) bs props"

text \<open>
  Templates as written contain no \<open>tid\<close> attribute of their own (\<open>_processElem\<close>
  sets it). \<open>events_bound K\<close>: every \<open>@\<close> attribute of a compiled element that is
  neither a style nor a script finds its binder through the key
  \<open>_createElem\<close> builds (\<open>WcElem.event_spec\<close>) among the binder keys \<open>K\<close>.
\<close>

fun no_tid :: "tnode \<Rightarrow> bool" where
  "no_tid (TText _) = True"
| "no_tid (TElem tag atts ch) = (''tid'' \<notin> fst ` set atts \<and> (\<forall>c \<in> set ch. no_tid c))"

fun events_bound :: "string list \<Rightarrow> tnode \<Rightarrow> bool" where
  "events_bound K (TText _) = True"
| "events_bound K (TElem tag atts ch) =
     ((to_lower tag \<notin> {''style'', ''script''} \<longrightarrow>
        (\<forall>(n, v) \<in> set atts. starts_with n ''@'' \<longrightarrow>
           (case map_of atts ''tid'' of Some t \<Rightarrow> \<not> isl (event_spec (\<lambda>k. k \<in> set K) False t n) | None \<Rightarrow> False)))
      \<and> (\<forall>c \<in> set ch. events_bound K c))"

lemma string_of_nat_inj: "string_of_nat a = string_of_nat b \<Longrightarrow> a = b"
  using digits_val_string_of_nat [of a] digits_val_string_of_nat [of b] by metis

lemma bar_not_digit: "CHR ''|'' \<notin> set (string_of_nat n)"
  using string_of_nat_digits [of n] by (auto simp: is_digit_char_def)

lemma binder_key_inj: "binder_key a x = binder_key b y \<Longrightarrow> a = b \<and> x = y"
proof -
  assume h: "binder_key a x = binder_key b y"
  have "takeWhile (\<lambda>c. c \<noteq> CHR ''|'') (binder_key a x) = string_of_nat a"
    using bar_not_digit [of a] unfolding binder_key_def by (subst takeWhile_append2) auto
  moreover have "takeWhile (\<lambda>c. c \<noteq> CHR ''|'') (binder_key b y) = string_of_nat b"
    using bar_not_digit [of b] unfolding binder_key_def by (subst takeWhile_append2) auto
  ultimately have ab: "a = b" using h string_of_nat_inj by metis
  then show ?thesis using h by (simp add: binder_key_def)
qed

lemma mkScopeBinder_some: "isAttrCanBinding n \<Longrightarrow> \<exists>b. mkScopeBinder c n v = Some b"
  by (cases n) (auto simp: isAttrCanBinding_def mkScopeBinder_def scope_binder_def Let_def)

lemma bind_attr_keys:
  "fst ` set bs \<subseteq> fst ` set (bind_attr c tid ch bs att)"
  by (cases att) (auto simp: bind_attr_def split: option.splits)

lemma bind_attr_own:
  "isAttrCanBinding (fst att) \<Longrightarrow> binder_key tid (fst att) \<in> fst ` set (bind_attr c tid ch bs att)"
proof (cases att)
  case (Pair n v)
  assume b: "isAttrCanBinding (fst att)"
  then obtain x where "mkScopeBinder c n v = Some x" using mkScopeBinder_some [of n c v] Pair by auto
  then show ?thesis using b Pair by (auto simp: bind_attr_def)
qed

lemma foldl_bind_attr_keys:
  "fst ` set bs \<subseteq> fst ` set (foldl (bind_attr c tid ch) bs atts)"
proof (induction atts arbitrary: bs)
  case (Cons a atts)
  show ?case using Cons.IH [of "bind_attr c tid ch bs a"] bind_attr_keys [of bs c tid ch a] by simp
qed simp

lemma foldl_bind_attr_own:
  "(n, v) \<in> set atts \<Longrightarrow> isAttrCanBinding n \<Longrightarrow> binder_key tid n \<in> fst ` set (foldl (bind_attr c tid ch) bs atts)"
proof (induction atts arbitrary: bs)
  case (Cons a atts)
  show ?case
  proof (cases "a = (n, v)")
    case True
    then show ?thesis using bind_attr_own [of "(n, v)" tid c ch bs] Cons.prems
      foldl_bind_attr_keys [of "bind_attr c tid ch bs (n, v)" c tid ch atts] by auto
  next
    case False
    then show ?thesis using Cons by auto
  qed
qed simp

lemma events_bound_mono: "set K \<subseteq> set K' \<Longrightarrow> events_bound K n \<Longrightarrow> events_bound K' n"
  by (induction K n rule: events_bound.induct) (fastforce simp: event_spec_isl split: option.splits)+

lemma event_key_binder_key: "event_key False (string_of_nat t) n = binder_key t n"
  by (simp add: event_key_def binder_key_def)

lemma at_binding: "starts_with n ''@'' \<Longrightarrow> isAttrCanBinding n"
  by (cases n) (auto simp: starts_with_def isAttrCanBinding_def)

lemma processElem_keys:
  "fst ` set (tc_binders S) \<subseteq> fst ` set (tc_binders (snd (processElem c tag atts ch S)))"
  using foldl_bind_attr_keys by (simp add: processElem_def Let_def)

lemma processElem_events:
  assumes "''tid'' \<notin> fst ` set atts" "(n, v) \<in> set (fst (processElem c tag atts ch S))" "starts_with n ''@''"
  shows "\<exists>t. map_of (fst (processElem c tag atts ch S)) ''tid'' = Some t
           \<and> event_key False t n \<in> fst ` set (tc_binders (snd (processElem c tag atts ch S)))"
proof -
  have nt: "n \<noteq> ''tid''" using assms(3) by (auto simp: starts_with_def)
  have bind: "\<exists>(n, v) \<in> set atts. isAttrCanBinding n" and inn: "(n, v) \<in> set atts"
    using assms nt at_binding [OF assms(3)] jm_set_absent [of "''tid''" atts]
    by (auto simp: processElem_def Let_def split: if_splits)
  have key: "binder_key (tc_tid S) n \<in> fst ` set (foldl (bind_attr c (tc_tid S) ch) (tc_binders S) atts)"
    using foldl_bind_attr_own [OF inn at_binding [OF assms(3)]] .
  have none: "map_of atts ''tid'' = None" using assms(1) by (simp add: map_of_eq_None_iff)
  have "map_of (jm_set ''tid'' (string_of_nat (tc_tid S)) atts) ''tid'' = Some (string_of_nat (tc_tid S))"
    using jm_set_absent [of "''tid''" atts] assms(1) by (simp add: map_add_def none)
  then show ?thesis using bind key
    by (simp add: processElem_def Let_def event_key_binder_key)
qed

lemma parse_keys_events:
  "(no_tid node \<longrightarrow> events_bound (map fst (tc_binders (snd (parseElemTpl c node S)))) (fst (parseElemTpl c node S)))
   \<and> fst ` set (tc_binders S) \<subseteq> fst ` set (tc_binders (snd (parseElemTpl c node S)))"
  "((\<forall>x \<in> set ns. no_tid x) \<longrightarrow>
      (\<forall>x \<in> set (fst (parseChildren c ns S)). events_bound (map fst (tc_binders (snd (parseChildren c ns S)))) x))
   \<and> fst ` set (tc_binders S) \<subseteq> fst ` set (tc_binders (snd (parseChildren c ns S)))"
proof (induction c node S and c ns S rule: parseElemTpl_parseChildren.induct)
  case (2 c tag atts ch S)
  obtain atts' S1 where r1: "(if to_lower tag = ''script'' then (atts, S)
         else if to_lower tag = ''style'' then
           (jm_set ''tid'' (string_of_nat (tc_tid S)) atts,
            S\<lparr>tc_tid := Suc (tc_tid S), tc_elems := tc_elems S @ [(tc_tid S, tag)]\<rparr>)
         else processElem c tag atts ch S) = (atts', S1)" by fastforce
  obtain ch' S2 where r2: "parseChildren c ch S1 = (ch', S2)" by fastforce
  have h2: "((\<forall>x \<in> set ch. no_tid x) \<longrightarrow> (\<forall>x \<in> set ch'. events_bound (map fst (tc_binders S2)) x))
            \<and> fst ` set (tc_binders S1) \<subseteq> fst ` set (tc_binders S2)"
    using 2 [OF r1 [symmetric] refl] r2 by simp
  have res: "parseElemTpl c (TElem tag atts ch) S = (TElem tag atts' ch', S2)"
    using r1 r2 by simp
  have k1: "fst ` set (tc_binders S) \<subseteq> fst ` set (tc_binders S1)"
    using r1 processElem_keys [of S c tag atts ch] by (auto split: if_splits)
  have own: "\<forall>(n, v) \<in> set atts'. starts_with n ''@'' \<longrightarrow>
        (case map_of atts' ''tid'' of Some t \<Rightarrow> \<not> isl (event_spec (\<lambda>k. k \<in> set (map fst (tc_binders S2))) False t n) | None \<Rightarrow> False)"
    if nt: "''tid'' \<notin> fst ` set atts" and tg: "to_lower tag \<notin> {''style'', ''script''}"
  proof -
    have pe: "processElem c tag atts ch S = (atts', S1)" using r1 tg by simp
    { fix n v assume nv: "(n, v) \<in> set atts'" and at: "starts_with n ''@''"
      have "case map_of atts' ''tid'' of Some t \<Rightarrow> \<not> isl (event_spec (\<lambda>k. k \<in> set (map fst (tc_binders S2))) False t n) | None \<Rightarrow> False"
        using processElem_events [of atts n v c tag ch S] nt nv at pe conjunct2 [OF h2] by (force simp: event_spec_isl) }
    then show ?thesis by blast
  qed
  have ks: "fst ` set (tc_binders S) \<subseteq> fst ` set (tc_binders S2)" using k1 h2 by blast
  show ?case unfolding res using conjunct1 [OF h2] ks own by auto
next
  case (4 c n ns S)
  obtain n' S1 where r1: "parseElemTpl c n S = (n', S1)" by fastforce
  obtain ns' S2 where r2: "parseChildren c ns S1 = (ns', S2)" by fastforce
  have h1: "(no_tid n \<longrightarrow> events_bound (map fst (tc_binders S1)) n')
            \<and> fst ` set (tc_binders S) \<subseteq> fst ` set (tc_binders S1)"
    using 4(1) r1 by simp
  have h2: "((\<forall>x \<in> set ns. no_tid x) \<longrightarrow> (\<forall>x \<in> set ns'. events_bound (map fst (tc_binders S2)) x))
            \<and> fst ` set (tc_binders S1) \<subseteq> fst ` set (tc_binders S2)"
    using 4(2) [OF r1 [symmetric]] r2 by simp
  have "no_tid n \<longrightarrow> events_bound (map fst (tc_binders S2)) n'"
    using h1 h2 events_bound_mono [of "map fst (tc_binders S1)" "map fst (tc_binders S2)"] by auto
  then show ?case using h1 h2 r1 r2 by auto
qed simp_all

lemma processElem_tids:
  "map fst (tc_elems (snd (processElem c tag atts ch S))) = map fst (tc_elems S) @ [tc_tid S ..< tc_tid (snd (processElem c tag atts ch S))]
   \<and> tc_tid S \<le> tc_tid (snd (processElem c tag atts ch S))"
  by (simp add: processElem_def Let_def)

lemma upt_join: "a \<le> b \<Longrightarrow> b \<le> c \<Longrightarrow> [a..<b] @ [b..<c] = [a..<c]"
  by (metis le_add_diff_inverse upt_add_eq_append)

lemma parse_tids:
  "map fst (tc_elems (snd (parseElemTpl c node S))) = map fst (tc_elems S) @ [tc_tid S ..< tc_tid (snd (parseElemTpl c node S))]
   \<and> tc_tid S \<le> tc_tid (snd (parseElemTpl c node S))"
  "map fst (tc_elems (snd (parseChildren c ns S))) = map fst (tc_elems S) @ [tc_tid S ..< tc_tid (snd (parseChildren c ns S))]
   \<and> tc_tid S \<le> tc_tid (snd (parseChildren c ns S))"
proof (induction c node S and c ns S rule: parseElemTpl_parseChildren.induct)
  case (2 c tag atts ch S)
  obtain atts' S1 where r1: "(if to_lower tag = ''script'' then (atts, S)
         else if to_lower tag = ''style'' then
           (jm_set ''tid'' (string_of_nat (tc_tid S)) atts,
            S\<lparr>tc_tid := Suc (tc_tid S), tc_elems := tc_elems S @ [(tc_tid S, tag)]\<rparr>)
         else processElem c tag atts ch S) = (atts', S1)" by fastforce
  obtain ch' S2 where r2: "parseChildren c ch S1 = (ch', S2)" by fastforce
  have h2: "map fst (tc_elems S2) = map fst (tc_elems S1) @ [tc_tid S1 ..< tc_tid S2] \<and> tc_tid S1 \<le> tc_tid S2"
    using 2 [OF r1 [symmetric] refl] r2 by simp
  have h1: "map fst (tc_elems S1) = map fst (tc_elems S) @ [tc_tid S ..< tc_tid S1] \<and> tc_tid S \<le> tc_tid S1"
    using r1 processElem_tids [of c tag atts ch S] by (auto split: if_splits)
  have res: "parseElemTpl c (TElem tag atts ch) S = (TElem tag atts' ch', S2)"
    using r1 r2 by simp
  show ?case unfolding res using h1 h2 upt_join [of "tc_tid S" "tc_tid S1" "tc_tid S2"] by simp
next
  case (4 c n ns S)
  obtain n' S1 where r1: "parseElemTpl c n S = (n', S1)" by fastforce
  obtain ns' S2 where r2: "parseChildren c ns S1 = (ns', S2)" by fastforce
  have h1: "map fst (tc_elems S1) = map fst (tc_elems S) @ [tc_tid S ..< tc_tid S1] \<and> tc_tid S \<le> tc_tid S1"
    using 4(1) r1 by simp
  have h2: "map fst (tc_elems S2) = map fst (tc_elems S1) @ [tc_tid S1 ..< tc_tid S2] \<and> tc_tid S1 \<le> tc_tid S2"
    using 4(2) [OF r1 [symmetric]] r2 by simp
  show ?case using h1 h2 r1 r2 upt_join [of "tc_tid S" "tc_tid S1" "tc_tid S2"] by simp
qed simp_all

lemma parse_tids_distinct:
  "distinct (map fst (tc_elems S)) \<Longrightarrow> \<forall>i \<in> fst ` set (tc_elems S). i < tc_tid S \<Longrightarrow>
   distinct (map fst (tc_elems (snd (parseElemTpl c node S))))
   \<and> (\<forall>i \<in> fst ` set (tc_elems (snd (parseElemTpl c node S))). i < tc_tid (snd (parseElemTpl c node S)))"
  using parse_tids(1) [of c node S] by (auto simp: set_map [symmetric] simp del: set_map)

text \<open>
  C17 (element ids are allocated consecutively): compiling a template with
  \<open>_parseElemTpl\<close> appends the registered elements after those registered before, and
  their ids are exactly the values the counter \<open>tid\<close> ran through, in increasing order,
  with no id skipped or used twice.
\<close>

theorem tids_in_document_order:
  "map fst (tc_elems (snd (parseElemTpl c node S)))
   = map fst (tc_elems S) @ [tc_tid S ..< tc_tid (snd (parseElemTpl c node S))]"
  using parse_tids(1) [of c node S] by simp

lemma compile_example:
  "parseElemTpl (\<lambda>_ _. True) (TElem ''div'' [(''class'', ''x'')]
      [TElem ''button'' [(''@click'', ''n++'')] [TText ''add''], TElem ''my-el'' [] []])
      \<lparr>tc_tid = 0, tc_binders = [], tc_elems = []\<rparr> =
   (TElem ''div'' [(''class'', ''x'')]
      [TElem ''button'' [(''@click'', ''n++''), (''tid'', ''0'')] [TText ''add''], TElem ''my-el'' [(''tid'', ''1'')] []],
    \<lparr>tc_tid = 2, tc_binders = [(''0|@click'', BFn [''$scope'', ''$el'', ''$ev''] ''with($scope){n++;}'')],
     tc_elems = [(0, ''button''), (1, ''my-el'')]\<rparr>)"
  by code_simp

text \<open>
  C26 (event binders of a compiled template): after \<open>_parseElemTpl\<close> compiles a
  template without \<open>tid\<close> attributes of its own, every \<open>@\<close> attribute of every
  compiled element other than a style or script carries a \<open>tid\<close>, and the key
  \<open>tid|@name\<close> under which \<open>_createElem\<close> looks up its handler is among the binder
  keys of the compiled template, so the lookup never reports a missing binder.
\<close>

theorem compiled_events_bound:
  "no_tid node \<Longrightarrow>
   events_bound (map fst (tc_binders (snd (parseElemTpl c node S)))) (fst (parseElemTpl c node S))"
  using parse_keys_events(1) by blast

end
