(* ===== verification/TplSugar.thy ===== *)
theory TplSugar
  imports TplCompile
begin

text \<open>
  The syntax sugar of templates (\<open>Tpl.ts\<close>, \<open>_Tpl._preProcessElem\<close> and the helpers it
  calls), run on the template before it is compiled. On each element, over a snapshot
  of its attributes (\<open>elementAttrs\<close>): \<open>$$name="v"\<close> becomes a two-way value binding
  (\<open>_bidirBindValue\<close>, which also moves a default \<open>name\<close> attribute into the template
  data by \<open>setData\<close>); \<open>$:[attr].[events]="v"\<close> and \<open>$::...\<close> become radio and checkbox
  bindings (\<open>_bidirBindRadio1\<close>, \<open>_bidirBindCheckBox1\<close>), and an empty value stops the
  whole element (\<open>return\<close>); \<open>$if\<close> and \<open>$for(v,k)\<close> are taken off the element, which
  is then wrapped in a \<open>$for\<close> template holding an \<open>$if\<close> template. Then the element's
  children, in order. Attributes created from markup (\<open>innerHTML\<close>) have their names
  lower-cased by the HTML parser, which keeps only the first of equal names;
  \<open>removeNamedItem\<close> of a missing attribute throws \<open>NotFoundError\<close>, the \<open>None\<close> of the
  model. The \<open>tplParse\<close> stage of plugins is not modelled.
\<close>

definition create_attrs :: "(string \<times> string) list \<Rightarrow> meta_el" where
  "create_attrs kv =
     foldl (\<lambda>acc (k, v). if to_lower k \<in> set (map fst acc) then acc else acc @ [(to_lower k, v)]) [] kv"

definition set_attrs :: "meta_el \<Rightarrow> meta_el \<Rightarrow> meta_el" where
  "set_attrs atts new = foldl (\<lambda>a (k, v). jm_set k v a) atts new"

definition rm_named :: "string \<Rightarrow> meta_el \<Rightarrow> meta_el option" where
  "rm_named n atts = (if n \<in> set (map fst atts) then Some (jm_delete n atts) else None)"

definition bidirBindValue :: "'o evaluator \<Rightarrow> string \<Rightarrow> string \<Rightarrow> meta_el \<times> 'o tpl_data \<Rightarrow> meta_el \<times> 'o tpl_data" where
  "bidirBindValue ev attrName scopeName st =
     (case st of (atts, D) \<Rightarrow>
        let varName = kebabToSnake attrName;
            vn = to_lower varName;
            bf = ''var o=$el.rootScope||$el;'' @ scopeName @ ''=o.'' @ varName;
            (atts1, D1) = (case map_of atts vn of
                             Some v \<Rightarrow> (jm_delete vn atts, setData ev scopeName v D)
                           | None \<Rightarrow> (atts, D))
        in (set_attrs atts1 (create_attrs [(''$'' @ varName, scopeName), (''@input.stop.'' @ varName, bf),
                                           (''@change.stop.'' @ varName, bf)]), D1))"

definition event_attrs :: "string \<Rightarrow> string list \<Rightarrow> string \<Rightarrow> string \<Rightarrow> (string, string) jsmap" where
  "event_attrs checked events scopeName handler =
     foldl (\<lambda>m e. jm_set (''@'' @ e @ ''.'' @ scopeName) handler m) [(''$checked'', checked)] events"

definition bidirBindRadio1 :: "string \<Rightarrow> string \<Rightarrow> string list \<Rightarrow> meta_el \<Rightarrow> meta_el" where
  "bidirBindRadio1 scopeName valueAttr events atts =
     jm_set ''name'' scopeName
       (set_attrs atts (create_attrs (event_attrs (scopeName @ '' === '' @ valueAttr) events scopeName
                                        (scopeName @ ''='' @ valueAttr))))"

definition bidirBindCheckBox1 :: "string \<Rightarrow> string \<Rightarrow> string list \<Rightarrow> meta_el \<Rightarrow> meta_el" where
  "bidirBindCheckBox1 scopeName valueAttr events atts =
     set_attrs (jm_set ''name'' scopeName atts)
       (create_attrs (event_attrs
          (''('' @ scopeName @ '' instanceof Array)?'' @ scopeName @ ''.indexOf('' @ valueAttr @ '')>=0:false'')
          events scopeName
          (''if(!('' @ scopeName @ '' instanceof Array)) '' @ scopeName @ ''=[]; var i = '' @ scopeName
           @ ''.indexOf('' @ valueAttr @ '');i>=0?'' @ scopeName @ ''.splice(i,1):'' @ scopeName
           @ ''.push('' @ valueAttr @ '')'')))"

text \<open>
  The regular expression \<open>/\$for(\((\w+)?,?(\w+)?\)$|$)/\<close>, unanchored at the start:
  the leftmost \<open>$for\<close> followed by the end of the name or by a parenthesised pair of
  optional words; its groups 2 and 3 (the greedy first word wins).
\<close>

definition word_char :: "char \<Rightarrow> bool" where
  "word_char c \<longleftrightarrow> is_alnum c \<or> c = CHR ''_''"

definition opt_word :: "string \<Rightarrow> string option" where
  "opt_word w = (if w = [] then None else Some w)"

definition for_tail :: "string \<Rightarrow> (string option \<times> string option) option" where
  "for_tail r =
     (if r = [] then Some (None, None)
      else if hd r = CHR ''('' \<and> last r = CHR '')'' \<and> 2 \<le> length r then
        (let inner = butlast (tl r); w1 = takeWhile word_char inner; rest = dropWhile word_char inner
         in if rest = [] then Some (opt_word w1, None)
            else if hd rest = CHR '','' \<and> list_all word_char (tl rest) then Some (opt_word w1, opt_word (tl rest))
            else None)
      else None)"

fun for_match :: "string \<Rightarrow> (string option \<times> string option) option" where
  "for_match [] = None"
| "for_match (c # s) =
     (if starts_with (c # s) ''$for'' \<and> for_tail (drop 4 (c # s)) \<noteq> None then for_tail (drop 4 (c # s))
      else for_match s)"

definition push_for_att :: "meta_el \<Rightarrow> string list \<Rightarrow> bool \<Rightarrow> meta_el \<Rightarrow> meta_el \<times> meta_el" where
  "push_for_att elem names remove fa =
     foldl (\<lambda>(e, fa) n. case map_of e n of
                           Some v \<Rightarrow> (if remove then jm_delete n e else e, fa @ [(n, v)])
                         | None \<Rightarrow> (e, fa)) (elem, fa) names"

record 'o sugar =
  sa_atts :: meta_el
  sa_data :: "'o tpl_data"
  sa_for :: meta_el
  sa_if :: "(string \<times> string) option"
  sa_stopped :: bool

text \<open>One attribute of the snapshot: the branches of the loop of \<open>_preProcessElem\<close>.\<close>

definition sugar_attr :: "'o evaluator \<Rightarrow> string \<times> string \<Rightarrow> 'o sugar \<Rightarrow> 'o sugar option" where
  "sugar_attr ev att S =
     (case att of (n, v) \<Rightarrow>
        if starts_with n ''$$'' then
          (let (a1, D1) = bidirBindValue ev (if drop 2 n = [] then ''value'' else drop 2 n) v (sa_atts S, sa_data S)
           in map_option (\<lambda>a. S\<lparr>sa_atts := a, sa_data := D1\<rparr>) (rm_named n a1))
        else if starts_with n ''$:'' then
          (let isMulti = starts_with n ''$::'';
               sp = split_on CHR ''.'' (drop (if isMulti then 3 else 2) n);
               valueAttr = (if hd sp = [] then ''value'' else hd sp);
               events = (if tl sp = [] then [''change''] else tl sp)
           in if v = [] then Some (S\<lparr>sa_stopped := True\<rparr>)
              else map_option (\<lambda>a. S\<lparr>sa_atts := a\<rparr>)
                     (rm_named n ((if isMulti then bidirBindCheckBox1 else bidirBindRadio1) v valueAttr events (sa_atts S))))
        else if n = ''$if'' then map_option (\<lambda>a. S\<lparr>sa_atts := a, sa_if := Some (n, v)\<rparr>) (rm_named n (sa_atts S))
        else (case for_match n of
                None \<Rightarrow> Some S
              | Some (w1, w2) \<Rightarrow>
                  (let forIndex = (case w2 of Some x \<Rightarrow> x | None \<Rightarrow> ''index'');
                       forValue = (case w1 of Some x \<Rightarrow> x | None \<Rightarrow> ''value'');
                       fa1 = snd (push_for_att (create_attrs [(''$for'', v), (''for-index'', forIndex), (''for-value'', forValue)])
                                   [''$for'', ''for-index'', ''for-value'', ''$for-items''] False (sa_for S));
                       (a1, fa2) = push_for_att (sa_atts S) [''sort'', ''$sort''] True fa1
                   in map_option (\<lambda>a. S\<lparr>sa_atts := a, sa_for := fa2\<rparr>) (rm_named n a1))))"

fun sugar_loop :: "'o evaluator \<Rightarrow> (string \<times> string) list \<Rightarrow> 'o sugar \<Rightarrow> 'o sugar option" where
  "sugar_loop ev [] S = Some S"
| "sugar_loop ev (att # atts) S =
     (case sugar_attr ev att S of
        None \<Rightarrow> None
      | Some S' \<Rightarrow> if sa_stopped S' then Some S' else sugar_loop ev atts S')"

definition sugar_wrap :: "meta_el \<Rightarrow> (string \<times> string) option \<Rightarrow> tnode \<Rightarrow> tnode" where
  "sugar_wrap fa ifa e =
     (let inner = (case ifa of Some a \<Rightarrow> TElem ''template'' [a] [e] | None \<Rightarrow> e)
      in if fa \<noteq> [] then TElem ''template'' (set_attrs [] fa) [inner] else inner)"

fun preProcessElem :: "'o evaluator \<Rightarrow> tnode \<Rightarrow> 'o tpl_data \<Rightarrow> (tnode \<times> 'o tpl_data) option"
and preProcessChildren :: "'o evaluator \<Rightarrow> tnode list \<Rightarrow> 'o tpl_data \<Rightarrow> (tnode list \<times> 'o tpl_data) option" where
  "preProcessElem ev (TText t) D = Some (TText t, D)"
| "preProcessElem ev (TElem tag atts ch) D =
     (case sugar_loop ev atts \<lparr>sa_atts = atts, sa_data = D, sa_for = [], sa_if = None, sa_stopped = False\<rparr> of
        None \<Rightarrow> None
      | Some S \<Rightarrow>
          if sa_stopped S then Some (TElem tag (sa_atts S) ch, sa_data S)
          else (case preProcessChildren ev ch (sa_data S) of
                  None \<Rightarrow> None
                | Some (ch', D') \<Rightarrow> Some (sugar_wrap (sa_for S) (sa_if S) (TElem tag (sa_atts S) ch'), D')))"
| "preProcessChildren ev [] D = Some ([], D)"
| "preProcessChildren ev (n # ns) D =
     (case preProcessElem ev n D of
        None \<Rightarrow> None
      | Some (n', D1) \<Rightarrow> (case preProcessChildren ev ns D1 of None \<Rightarrow> None | Some (ns', D2) \<Rightarrow> Some (n' # ns', D2)))"




lemma bidirBindValue_data:
  "(\<And>n v D. P D \<Longrightarrow> P (setData ev n v D)) \<Longrightarrow> P D \<Longrightarrow> P (snd (bidirBindValue ev a s (atts, D)))"
  by (simp add: bidirBindValue_def Let_def split: option.splits prod.splits)

lemma sugar_attr_data:
  assumes "\<And>n v D. P D \<Longrightarrow> P (setData ev n v D)" "sugar_attr ev att S = Some S'" "P (sa_data S)"
  shows "P (sa_data S')"
proof -
  obtain n v where att: "att = (n, v)" by fastforce
  obtain a1 D1 where b: "bidirBindValue ev (if drop 2 n = [] then ''value'' else drop 2 n) v (sa_atts S, sa_data S) = (a1, D1)"
    by fastforce
  have "P D1" using bidirBindValue_data [of P ev, OF assms(1) assms(3)] b by (metis snd_conv)
  then show ?thesis using assms(2,3) b att
    by (auto simp: sugar_attr_def Let_def split: if_splits option.splits prod.splits)
qed

lemma sugar_loop_data:
  "(\<And>n v D. P D \<Longrightarrow> P (setData ev n v D)) \<Longrightarrow> sugar_loop ev atts S = Some S' \<Longrightarrow> P (sa_data S) \<Longrightarrow> P (sa_data S')"
proof (induction atts arbitrary: S)
  case (Cons att atts)
  then obtain S1 where s1: "sugar_attr ev att S = Some S1" by (auto split: option.splits)
  have "P (sa_data S1)" using sugar_attr_data [of P ev, OF Cons.prems(1) s1 Cons.prems(3)] .
  then show ?case using Cons s1 by (auto split: if_splits)
qed simp

lemma preProcess_data:
  assumes cl: "\<And>ev n v D. P D \<Longrightarrow> P (setData ev n v D)"
  shows "preProcessElem ev node D = Some (node', D') \<Longrightarrow> P D \<Longrightarrow> P D'"
    and "preProcessChildren ev ns D = Some (ns', D') \<Longrightarrow> P D \<Longrightarrow> P D'"
proof (induction ev node D and ev ns D arbitrary: node' D' and ns' D' rule: preProcessElem_preProcessChildren.induct)
  case (2 ev tag atts ch D)
  then show ?case using sugar_loop_data [of P ev, OF cl]
    by (fastforce split: option.splits if_splits)
next
  case (4 ev n ns D)
  then show ?case by (fastforce split: option.splits)
qed simp_all

text \<open>
  Expanding the syntax sugar of a template
  changes the template data only through \<open>setData\<close> of the defaults of \<open>$$\<close> bindings,
  so well-typed data stays well typed and no property or scope name is added or removed.
\<close>

theorem preProcess_keeps_data:
  assumes "preProcessElem ev node D = Some (node', D')" "td_ok D"
  shows "td_ok D' \<and> jm_keys (td_props D') = jm_keys (td_props D) \<and> jm_keys (td_scope D') = jm_keys (td_scope D)"
proof -
  let ?P = "\<lambda>X. td_ok X \<and> jm_keys (td_props X) = jm_keys (td_props D) \<and> jm_keys (td_scope X) = jm_keys (td_scope D)"
  have "\<And>ev n v X. ?P X \<Longrightarrow> ?P (setData ev n v X)" using setData_ok setData_keys by metis
  then show ?thesis using preProcess_data(1) [of ?P, OF _ assms(1)] assms(2) by blast
qed





lemma to_lower_prefix: "to_lower (''$'' @ x) = ''$'' @ to_lower x" "to_lower (''@input.stop.'' @ x) = ''@input.stop.'' @ to_lower x"
  "to_lower (''@change.stop.'' @ x) = ''@change.stop.'' @ to_lower x"
  by (simp_all add: to_lower_c_def is_upper_def)



lemma sugar_for_if_example:
  "preProcessElem (\<lambda>_. None :: unit tval option)
     (TElem ''li'' [(''$if'', ''ok''), (''$for(v,k)'', ''list''), (''sort'', ''a'')] [TText ''x''])
     \<lparr>td_props = [], td_scope = []\<rparr> =
   Some (TElem ''template'' [(''$for'', ''list''), (''for-index'', ''k''), (''for-value'', ''v''), (''sort'', ''a'')]
          [TElem ''template'' [(''$if'', ''ok'')] [TElem ''li'' [] [TText ''x'']]], \<lparr>td_props = [], td_scope = []\<rparr>)"
  by code_simp

lemma sugar_empty_scope_stops:
  "preProcessElem (\<lambda>_. None :: unit tval option)
     (TElem ''input'' [(''$:'', []), (''$if'', ''ok'')] [TElem ''b'' [(''$$value'', ''v'')] []])
     \<lparr>td_props = [], td_scope = []\<rparr> =
   Some (TElem ''input'' [(''$:'', []), (''$if'', ''ok'')] [TElem ''b'' [(''$$value'', ''v'')] []],
         \<lparr>td_props = [], td_scope = []\<rparr>)"
  by code_simp

lemma sugar_bidir_if_left:
  "preProcessElem (\<lambda>_. None :: unit tval option) (TElem ''input'' [(''$$if'', ''flag'')] [])
     \<lparr>td_props = [], td_scope = []\<rparr> =
   Some (TElem ''input'' [(''$if'', ''flag''), (''@input.stop.if'', ''var o=$el.rootScope||$el;flag=o.if''),
     (''@change.stop.if'', ''var o=$el.rootScope||$el;flag=o.if'')] [], \<lparr>td_props = [], td_scope = []\<rparr>)"
  by code_simp

end
