(* ===== verification/TplPath.thy ===== *)
theory TplPath
  imports WcTag
begin

text \<open>
  Resolving a path used in a template (\<open>Tpl.ts\<close>, \<open>_Tpl._relPath\<close>, reached from
  \<open>Wc.$path\<close>, the CSS links and the scripts of a template): \<open>@/\<close> is dropped, \<open>.\<close> names
  the component's own file under the root, \<open>./\<close> and \<open>../\<close> are relative to the
  template's file (or to the root when the tag has no package), absolute paths and
  \<open>http(s)\<close> URLs are kept, anything else is an npm reference \<open>pkg/path\<close> or
  \<open>@scope/pkg/path\<close>, resolved against the module's base URL or the npm base. The
  result is \<open>None\<close> when \<open>decodeURI\<close> in \<open>_htmlMeta.rootUrl\<close> throws.
\<close>

record rel_path =
  rp_url :: string
  rp_pkg :: "string option"
  rp_relPath :: "string option"

definition url_only :: "string \<Rightarrow> rel_path" where
  "url_only u = \<lparr>rp_url = u, rp_pkg = None, rp_relPath = None\<rparr>"

definition npm_ref :: "html_meta \<Rightarrow> string \<Rightarrow> rel_path" where
  "npm_ref M src =
     (let sp = split_on CHR ''/'' src;
          (name, path) = (if starts_with (hd sp) ''@'' then (join_with ''/'' (take 2 sp), join_with ''/'' (drop 2 sp))
                          else (hd sp, join_with ''/'' (tl sp)));
          url = (case map_of (modules M) name of
                   Some m \<Rightarrow>
                     if mod_baseUrl m \<noteq> [] then joinUrl [Some (mod_baseUrl m), Some path]
                     else joinUrl [Some (npmUrl M),
                                   Some (case truthy (mod_version m) of Some v \<Rightarrow> name @ ''@'' @ v | None \<Rightarrow> name),
                                   Some path]
                 | None \<Rightarrow> joinUrl [Some (npmUrl M), Some name, Some path])
      in \<lparr>rp_url = url, rp_pkg = Some name, rp_relPath = Some path\<rparr>)"

text \<open>
  \<open>_kebabToSnake(component) + ext || ""\<close>: the concatenation binds first, so an absent
  \<open>ext\<close> is printed as \<open>undefined\<close>.
\<close>

definition tpl_relPath :: "location \<Rightarrow> html_meta \<Rightarrow> tag_info \<Rightarrow> string \<Rightarrow> string option \<Rightarrow> rel_path option" where
  "tpl_relPath L M info src ext =
     (let s1 = (if starts_with src ''@/'' then drop 2 src else src)
      in Option.bind
           (if s1 = ''.'' then rootUrl L M (kebabToSnake (ti_component info) @ (case ext of Some e \<Rightarrow> e | None \<Rightarrow> ''undefined''))
            else Some s1)
           (\<lambda>s. if starts_with s ''./'' \<or> starts_with s ''../'' then
                  (if ti_from info \<noteq> [] then Some (url_only (joinUrl [Some (ti_url info), Some ''..'', Some s]))
                   else map_option (\<lambda>r. url_only (joinUrl [Some r, Some ''..'', Some s]))
                          (rootUrl L M (kebabToSnake (ti_component info))))
                else if starts_with s ''/'' \<or> starts_http s then Some (url_only s)
                else Some (npm_ref M s)))"




lemma relPath_absolute:
  "\<not> starts_with s ''@/'' \<Longrightarrow> s \<noteq> ''.'' \<Longrightarrow> \<not> starts_with s ''./'' \<Longrightarrow> \<not> starts_with s ''../'' \<Longrightarrow>
   starts_with s ''/'' \<or> starts_http s \<Longrightarrow> tpl_relPath L M info s ext = Some (url_only s)"
  by (simp add: tpl_relPath_def)

lemma relPath_dot_undefined:
  "tpl_relPath \<lparr>loc_origin = ''http://h'', loc_pathname = ''/app/index.html'', loc_protocol = ''http:'', loc_host = ''h''\<rparr>
     \<lparr>meta_root = None, meta_debug = None, npmUrl = ''http://h/node_modules/'', npmCors = False, modules = [],
      meta_lang = None\<rparr>
     \<lparr>ti_from = [], ti_url = ''http://h/app/my-card.html'', ti_pkg = [], ti_component = ''my-card'', ti_tag = ''my-card''\<rparr>
     ''.'' None
   = Some (url_only ''http://h/app/myCardundefined'')"
  by code_simp

end
