(* ===== verification/Message.thy ===== *)
theory Message
  imports Prelude
begin

text \<open>
  Message passing between the main thread and the worker (\<open>src/lib/src/message.ts\<close>).
  Each thread runs the module once and holds its own \<open>_globalMessageId\<close>,
  \<open>_globalListeners\<close> (message name to the \<open>MessageBase\<close> object, whose \<open>_listener\<close> may
  be unset), \<open>_globalWaitReplies\<close> (request id to the deferred reply) and
  \<open>_workerReadyDefer\<close>; the record \<open>endpoint\<close> is that state, with the messages the
  thread has posted, the settlements of its deferred replies and its log. A message is
  the struct \<open>IMessageStruct\<close> with its optional fields. A listener is the async
  function given to \<open>on\<close>, modelled by the settlement of the promise it returns
  (\<open>Inr\<close> resolves, \<open>Inl\<close> rejects); the main thread's own \<open>W:Ready\<close> listener resolves
  \<open>_workerReadyDefer\<close> and returns \<open>{}\<close>. JavaScript truthiness of an error value is the
  parameter \<open>truthy\<close>.
\<close>

record ('d, 'e) mstruct =
  m_type :: "string option"
  m_id :: "nat option"
  m_reply :: "nat option"
  m_data :: "'d option"
  m_err :: "'e option"

datatype ('d, 'e) lsn = UserListener "'d option \<Rightarrow> 'e + 'd option" | ReadyListener "'d option"

datatype ('d, 'e) mres = MResolved "'d option" | MRejected 'e | MTimedOut

datatype mlog = ReplyNotFound nat | ListenerNotFound "string option" | ListenerTypeError string
  | ListenerFailed string

datatype msg_error = AlreadyExists string

record ('d, 'e) endpoint =
  ep_isWorker :: bool
  ep_next :: nat
  ep_ready :: bool
  ep_listeners :: "(string, ('d, 'e) lsn option) jsmap"
  ep_waits :: "nat list"
  ep_blocked :: "(nat \<times> string \<times> 'd option) list"
  ep_results :: "(nat \<times> ('d, 'e) mres) list"
  ep_posted :: "('d, 'e) mstruct list"
  ep_log :: "mlog list"

text \<open>The module's initial state: worker ids start at 1000000, the main thread's at 1.\<close>

definition ep_init :: "bool \<Rightarrow> ('d, 'e) endpoint" where
  "ep_init w = \<lparr>ep_isWorker = w, ep_next = (if w then 1000000 else 1), ep_ready = False,
     ep_listeners = [], ep_waits = [], ep_blocked = [], ep_results = [], ep_posted = [], ep_log = []\<rparr>"

text \<open>\<open>new MessageBase(name)\<close>: the object is registered under its name, without listener.\<close>

definition msg_new :: "string \<Rightarrow> ('d, 'e) endpoint \<Rightarrow> ('d, 'e) endpoint" where
  "msg_new name E = E\<lparr>ep_listeners := jm_set name None (ep_listeners E)\<rparr>"

text \<open>\<open>on(callback)\<close> throws when the object already has a listener.\<close>

definition msg_on :: "string \<Rightarrow> ('d, 'e) lsn \<Rightarrow> ('d, 'e) endpoint \<Rightarrow> msg_error + ('d, 'e) endpoint" where
  "msg_on name cb E =
     (case map_of (ep_listeners E) name of
        Some (Some _) \<Rightarrow> Inl (AlreadyExists name)
      | _ \<Rightarrow> Inr (E\<lparr>ep_listeners := jm_set name (Some cb) (ep_listeners E)\<rparr>))"

definition request :: "string \<Rightarrow> nat \<Rightarrow> 'd option \<Rightarrow> ('d, 'e) mstruct" where
  "request name i d = \<lparr>m_type = Some name, m_id = Some i, m_reply = None, m_data = d, m_err = None\<rparr>"

text \<open>The part of \<open>send\<close> after the ready wait: the deferred reply is stored, the request posted.\<close>

definition post_request :: "('d, 'e) endpoint \<Rightarrow> nat \<times> string \<times> 'd option \<Rightarrow> ('d, 'e) endpoint" where
  "post_request E r =
     (case r of (i, name, d) \<Rightarrow>
        E\<lparr>ep_waits := js_add i (ep_waits E), ep_posted := ep_posted E @ [request name i d]\<rparr>)"

text \<open>
  \<open>send(data)\<close>: the id is taken first; on the main thread the rest waits until the worker
  is ready, in the order of the calls.
\<close>

definition msg_send :: "string \<Rightarrow> 'd option \<Rightarrow> ('d, 'e) endpoint \<Rightarrow> nat \<times> ('d, 'e) endpoint" where
  "msg_send name d E =
     (let i = ep_next E; E1 = E\<lparr>ep_next := Suc i\<rparr>
      in (i, if \<not> ep_isWorker E \<and> \<not> ep_ready E then E1\<lparr>ep_blocked := ep_blocked E @ [(i, name, d)]\<rparr>
             else post_request E1 (i, name, d)))"

text \<open>\<open>_workerReadyDefer.resolve\<close>: the waiting sends go on, in order; a second resolve does nothing.\<close>

definition set_ready :: "('d, 'e) endpoint \<Rightarrow> ('d, 'e) endpoint" where
  "set_ready E =
     (if ep_ready E then E
      else foldl post_request (E\<lparr>ep_ready := True, ep_blocked := []\<rparr>) (ep_blocked E))"

text \<open>The reply of a handled request, and the reply after the listener's rejection.\<close>

definition reply_ok :: "('d, 'e) mstruct \<Rightarrow> 'd option \<Rightarrow> ('d, 'e) mstruct" where
  "reply_ok m res = \<lparr>m_type = m_type m, m_id = None, m_reply = m_id m, m_data = res, m_err = None\<rparr>"

definition reply_err :: "('d, 'e) mstruct \<Rightarrow> 'e \<Rightarrow> ('d, 'e) mstruct" where
  "reply_err m e = \<lparr>m_type = None, m_id = None, m_reply = m_id m, m_data = None, m_err = Some e\<rparr>"

definition post :: "('d, 'e) mstruct \<Rightarrow> ('d, 'e) endpoint \<Rightarrow> ('d, 'e) endpoint" where
  "post m E = E\<lparr>ep_posted := ep_posted E @ [m]\<rparr>"

definition add_log :: "mlog \<Rightarrow> ('d, 'e) endpoint \<Rightarrow> ('d, 'e) endpoint" where
  "add_log l E = E\<lparr>ep_log := ep_log E @ [l]\<rparr>"

text \<open>
  The \<open>message\<close> listener on a reply (\<open>data.reply\<close> truthy): the deferred reply is
  taken out and rejected when \<open>data.err\<close> is truthy, resolved with \<open>data.data\<close> otherwise.
\<close>

definition on_reply :: "('e \<Rightarrow> bool) \<Rightarrow> nat \<Rightarrow> ('d, 'e) mstruct \<Rightarrow> ('d, 'e) endpoint \<Rightarrow> ('d, 'e) endpoint" where
  "on_reply truthy r m E =
     (if r \<in> set (ep_waits E) then
        E\<lparr>ep_waits := js_delete r (ep_waits E),
          ep_results := ep_results E @ [(r, case m_err m of Some e \<Rightarrow> if truthy e then MRejected e else MResolved (m_data m)
                                          | None \<Rightarrow> MResolved (m_data m))]\<rparr>
      else add_log (ReplyNotFound r) E)"

text \<open>
  On a request: the listener object of \<open>data.type\<close>; when it has no \<open>_listener\<close>, the
  optional call gives \<open>undefined\<close> and \<open>.then\<close> on it throws a \<open>TypeError\<close>.
\<close>

definition on_request :: "('d, 'e) mstruct \<Rightarrow> ('d, 'e) endpoint \<Rightarrow> ('d, 'e) endpoint" where
  "on_request m E =
     (case m_type m of
        None \<Rightarrow> add_log (ListenerNotFound None) E
      | Some t \<Rightarrow>
          (case map_of (ep_listeners E) t of
             None \<Rightarrow> add_log (ListenerNotFound (Some t)) E
           | Some None \<Rightarrow> add_log (ListenerTypeError t) E
           | Some (Some (UserListener f)) \<Rightarrow>
               (case f (m_data m) of
                  Inr res \<Rightarrow> post (reply_ok m res) E
                | Inl e \<Rightarrow> post (reply_err m e) (add_log (ListenerFailed t) E))
           | Some (Some (ReadyListener res)) \<Rightarrow> post (reply_ok m res) (set_ready E)))"

definition receive :: "('e \<Rightarrow> bool) \<Rightarrow> ('d, 'e) mstruct \<Rightarrow> ('d, 'e) endpoint \<Rightarrow> ('d, 'e) endpoint" where
  "receive truthy m E =
     (case m_reply m of
        Some r \<Rightarrow> if r \<noteq> 0 then on_reply truthy r m E else on_request m E
      | None \<Rightarrow> on_request m E)"

text \<open>
  \<open>defer.result(TIMEOUT)\<close> rejects after 500 s; nothing removes the entry of
  \<open>_globalWaitReplies\<close> then.
\<close>

definition msg_timeout :: "nat \<Rightarrow> ('d, 'e) endpoint \<Rightarrow> ('d, 'e) endpoint" where
  "msg_timeout i E =
     (if i \<in> set (ep_waits E) \<and> i \<notin> fst ` set (ep_results E)
      then E\<lparr>ep_results := ep_results E @ [(i, MTimedOut)]\<rparr> else E)"

text \<open>The message names of \<open>WorkerMessage\<close> and \<open>MainMessage\<close>, and the module's start.\<close>

definition msg_names :: "string list" where
  "msg_names = [''W:Ready'', ''W:TemplateParse'', ''W:RegisterComponent'', ''W:UpdateElem'',
                ''M:SetGlobalMeta'', ''M:LoadComponent'']"

definition msg_module_init :: "bool \<Rightarrow> 'd option \<Rightarrow> ('d, 'e) endpoint" where
  "msg_module_init w eo =
     (let E = foldl (\<lambda>E n. msg_new n E) (ep_init w) msg_names
      in if w then snd (msg_send ''W:Ready'' eo E)
         else (case msg_on ''W:Ready'' (ReadyListener eo) E of Inr E' \<Rightarrow> E' | Inl _ \<Rightarrow> E))"

text \<open>
  The invariant of an endpoint: ids are positive, every waiting or blocked request has its
  own id below the counter, and nothing is blocked once the worker is ready (or on the
  worker, which never waits). The operations a thread performs, as data.
\<close>

definition msg_wf :: "('d, 'e) endpoint \<Rightarrow> bool" where
  "msg_wf E \<longleftrightarrow> 0 < ep_next E \<and> distinct (ep_waits E @ map fst (ep_blocked E))
     \<and> set (ep_waits E @ map fst (ep_blocked E)) \<subseteq> {..<ep_next E}
     \<and> (ep_ready E \<or> ep_isWorker E \<longrightarrow> ep_blocked E = [])"

datatype ('d, 'e) mop = MNew string | MOn string "('d, 'e) lsn" | MSend string "'d option"
  | MRecv "('d, 'e) mstruct" | MTimeout nat

fun msg_step :: "('e \<Rightarrow> bool) \<Rightarrow> ('d, 'e) mop \<Rightarrow> ('d, 'e) endpoint \<Rightarrow> ('d, 'e) endpoint" where
  "msg_step truthy (MNew n) E = msg_new n E"
| "msg_step truthy (MOn n cb) E = (case msg_on n cb E of Inl _ \<Rightarrow> E | Inr E' \<Rightarrow> E')"
| "msg_step truthy (MSend n d) E = snd (msg_send n d E)"
| "msg_step truthy (MRecv m) E = receive truthy m E"
| "msg_step truthy (MTimeout i) E = msg_timeout i E"

lemma foldl_post_request:
  "distinct (ep_waits E @ map fst B) \<Longrightarrow>
   foldl post_request E B = E\<lparr>ep_waits := ep_waits E @ map fst B,
     ep_posted := ep_posted E @ map (\<lambda>(i, n, d). request n i d) B\<rparr>"
proof (induction B arbitrary: E)
  case (Cons b B)
  obtain i n d where b: "b = (i, n, d)" by (cases b) auto
  have "i \<notin> set (ep_waits E)" using Cons.prems b by auto
  then have "post_request E b = E\<lparr>ep_waits := ep_waits E @ [i], ep_posted := ep_posted E @ [request n i d]\<rparr>"
    by (simp add: post_request_def js_add_def b)
  then show ?case using Cons.IH [of "post_request E b"] Cons.prems b by simp
qed simp

lemma set_ready_wf: "msg_wf E \<Longrightarrow> msg_wf (set_ready E)"
  by (auto simp: set_ready_def msg_wf_def foldl_post_request)

lemma foldl_post_request_fields:
  "ep_next (foldl post_request E B) = ep_next E \<and> ep_isWorker (foldl post_request E B) = ep_isWorker E
   \<and> ep_listeners (foldl post_request E B) = ep_listeners E \<and> ep_ready (foldl post_request E B) = ep_ready E
   \<and> ep_results (foldl post_request E B) = ep_results E"
  by (induction B arbitrary: E) (simp_all add: post_request_def split: prod.splits)

lemma set_ready_fields:
  "ep_next (set_ready E) = ep_next E \<and> ep_isWorker (set_ready E) = ep_isWorker E
   \<and> ep_listeners (set_ready E) = ep_listeners E \<and> ep_results (set_ready E) = ep_results E"
  by (simp add: set_ready_def foldl_post_request_fields)

lemma msg_wf_simple [simp]:
  "msg_wf (post m E) = msg_wf E" "msg_wf (add_log l E) = msg_wf E"
  "msg_wf (E\<lparr>ep_listeners := L\<rparr>) = msg_wf E" "msg_wf (E\<lparr>ep_results := R\<rparr>) = msg_wf E"
  by (simp_all add: msg_wf_def post_def add_log_def)

lemma on_request_wf: "msg_wf E \<Longrightarrow> msg_wf (on_request m E)"
  by (auto simp: on_request_def set_ready_wf split: option.splits lsn.splits sum.splits)

lemma on_reply_wf:
  assumes "msg_wf E" shows "msg_wf (on_reply truthy r m E)"
proof (cases "r \<in> set (ep_waits E)")
  case True
  then show ?thesis using assms by (auto simp: on_reply_def msg_wf_def js_delete_def distinct_removeAll)
next
  case False
  then show ?thesis using assms by (simp add: on_reply_def)
qed

lemma receive_wf: "msg_wf E \<Longrightarrow> msg_wf (receive truthy m E)"
  by (simp add: receive_def on_reply_wf on_request_wf split: option.splits)

lemma send_wf: "msg_wf E \<Longrightarrow> msg_wf (snd (msg_send n d E))"
  by (auto simp: msg_send_def msg_wf_def post_request_def js_add_def Let_def)

lemma msg_step_wf: "msg_wf E \<Longrightarrow> msg_wf (msg_step truthy op E)"
  by (cases op) (auto simp: msg_new_def msg_on_def msg_timeout_def receive_wf send_wf split: option.splits)

lemma init_wf: "msg_wf (msg_module_init w eo)"
proof -
  have new: "\<And>ns. foldl (\<lambda>E n. msg_new n E) (ep_init w) ns = (ep_init w)\<lparr>ep_listeners := foldl (\<lambda>L n. jm_set n None L) [] ns\<rparr>"
  proof -
    fix ns
    show "foldl (\<lambda>E n. msg_new n E) (ep_init w) ns = (ep_init w)\<lparr>ep_listeners := foldl (\<lambda>L n. jm_set n None L) [] ns\<rparr>"
      by (induction ns rule: rev_induct) (simp_all add: msg_new_def ep_init_def)
  qed
  have wE: "msg_wf ((ep_init w)\<lparr>ep_listeners := foldl (\<lambda>L n. jm_set n None L) [] msg_names\<rparr>)"
    by (simp add: msg_wf_def ep_init_def)
  show ?thesis unfolding msg_module_init_def Let_def new using send_wf [OF wE] wE
    by (auto simp: msg_on_def split: option.splits sum.splits)
qed

text \<open>
  C18 (message state stays well formed): from the module's start on either thread,
  after any sequence of constructions, \<open>on\<close> calls, sends, received messages and
  timeouts, request ids are positive and distinct and no send stays blocked after the
  worker is ready.
\<close>

theorem msg_wf_reachable:
  "msg_wf (foldl (\<lambda>E op. msg_step truthy op E) (msg_module_init w eo) ops)"
  by (rule foldl_invariant) (simp_all add: msg_step_wf init_wf)

lemma send_posts:
  assumes "ep_ready M \<or> ep_isWorker M" "msg_send name d M = (i, M1)"
  shows "i = ep_next M \<and> M1 = post_request (M\<lparr>ep_next := Suc (ep_next M)\<rparr>) (ep_next M, name, d)"
  using assms by (auto simp: msg_send_def Let_def)

text \<open>
  C16 (request and reply): when a thread that may send posts a request and the other
  thread has a listener for its name, the reply that thread posts settles exactly the
  sender's deferred reply for that id: resolved with the listener's result, rejected
  with its error when the error is truthy, and resolved with \<open>undefined\<close> when the error
  is falsy.
\<close>

theorem request_reply_roundtrip:
  assumes wf: "msg_wf M" and rd: "ep_ready M \<or> ep_isWorker M"
    and lw: "map_of (ep_listeners W) name = Some (Some (UserListener f))"
    and sd: "msg_send name d M = (i, M1)"
  shows "receive truthy (last (ep_posted (receive truthy (last (ep_posted M1)) W))) M1
         = M1\<lparr>ep_waits := js_delete i (ep_waits M1),
              ep_results := ep_results M1 @ [(i, case f d of Inr r \<Rightarrow> MResolved r
                                                | Inl e \<Rightarrow> if truthy e then MRejected e else MResolved None)]\<rparr>"
proof -
  have i: "i = ep_next M" and M1: "M1 = post_request (M\<lparr>ep_next := Suc (ep_next M)\<rparr>) (ep_next M, name, d)"
    using send_posts [OF rd sd] by simp_all
  have lastM1: "last (ep_posted M1) = request name i d" by (simp add: M1 post_request_def i)
  have inw: "i \<in> set (ep_waits M1)" by (simp add: M1 post_request_def i js_add_def)
  have i0: "i \<noteq> 0" using wf i by (simp add: msg_wf_def)
  show ?thesis
    by (cases "f d") (simp_all add: lastM1 receive_def on_request_def request_def lw post_def reply_ok_def
        reply_err_def add_log_def on_reply_def inw i0)
qed



lemma unlistened_type_error:
  "receive truthy (request ''W:UpdateElem'' 5 None) (msg_module_init False eo)
   = add_log (ListenerTypeError ''W:UpdateElem'') (msg_module_init False eo)"
  by (simp add: msg_module_init_def msg_names_def msg_new_def ep_init_def msg_on_def receive_def
      request_def on_request_def add_log_def)

end
