(* ===== verification/Defer.thy ===== *)
theory Defer
  imports Prelude "HOL-Library.Multiset"
begin

text \<open>
  The deferred result of \<open>Defer.ts\<close> (class \<open>Defer\<close>), which the package loader keeps
  for every chunk, file and package. Its loader runs on the first call of
  \<open>result()\<close>; calls made while it runs await the same promise, later calls get the
  stored value. Because \<open>result()\<close> is asynchronous, the model is a sequence of events:
  a call of \<open>result()\<close> by caller \<open>k\<close>, the settling of the loader's promise (raced
  against \<open>PromiseExt._timeout\<close>, whose timeout is a rejection), and \<open>reslove(v)\<close>.
  The answers of \<open>result()\<close> are recorded in order, so the interleavings are explicit.
  JavaScript's \<open>undefined\<close> is \<open>None\<close>.
\<close>

datatype dstate = DInit | DLoading | DEnd

datatype 'v settle = Ok "'v option" | Fail

datatype 'v ret = Ret "'v option" | Throw

record 'v deferred =
  d_state :: dstate
  d_value :: "'v option"
  d_first :: "nat option"
  d_waiting :: "nat list"
  d_starts :: nat
  d_out :: "(nat \<times> 'v ret) list"

datatype 'v dev = Call nat | Settle "'v settle" | Reslove "'v option"

text \<open>
  \<open>d_first\<close> is the caller whose call started the loader and now awaits it inside the
  \<open>try\<close> (line 28); \<open>d_waiting\<close> are the callers awaiting \<open>this._promise\<close> (line 34),
  resumed after it in registration order; \<open>d_starts\<close> counts the loader's starts.
\<close>

definition defer_new :: "'v deferred" where
  "defer_new = \<lparr>d_state = DInit, d_value = None, d_first = None, d_waiting = [], d_starts = 0, d_out = []\<rparr>"

fun settle_ret :: "'v settle \<Rightarrow> 'v ret" where
  "settle_ret (Ok v) = Ret v"
| "settle_ret Fail = Throw"

fun defer_step :: "'v dev \<Rightarrow> 'v deferred \<Rightarrow> 'v deferred" where
  "defer_step (Call k) D =
     (case d_state D of
        DInit \<Rightarrow> D\<lparr>d_state := DLoading, d_first := Some k, d_starts := Suc (d_starts D)\<rparr>
      | DLoading \<Rightarrow> D\<lparr>d_waiting := d_waiting D @ [k]\<rparr>
      | DEnd \<Rightarrow> D\<lparr>d_out := d_out D @ [(k, Ret (d_value D))]\<rparr>)"
| "defer_step (Settle r) D =
     (case d_first D of
        None \<Rightarrow> D
      | Some k \<Rightarrow>
          (let v = (case r of Ok x \<Rightarrow> x | Fail \<Rightarrow> d_value D)
           in D\<lparr>d_state := DEnd, d_value := v, d_first := None, d_waiting := [],
                d_out := d_out D @ [(k, Ret v)] @ map (\<lambda>j. (j, settle_ret r)) (d_waiting D)\<rparr>))"
| "defer_step (Reslove v) D = D\<lparr>d_value := v, d_state := DEnd\<rparr>"

definition defer_run :: "'v dev list \<Rightarrow> 'v deferred" where
  "defer_run evs = foldl (\<lambda>D e. defer_step e D) defer_new evs"

fun callers :: "'v dev list \<Rightarrow> nat list" where
  "callers [] = []"
| "callers (Call k # evs) = k # callers evs"
| "callers (_ # evs) = callers evs"

text \<open>
  The invariant: nobody waits unless the loader runs; the loader runs only after it was
  started, at most once; every caller is answered, waits in the \<open>try\<close> or awaits the
  promise (\<open>pending\<close>).
\<close>

definition pending :: "'v deferred \<Rightarrow> nat multiset" where
  "pending D = mset (map fst (d_out D)) + (case d_first D of None \<Rightarrow> {#} | Some k \<Rightarrow> {#k#}) + mset (d_waiting D)"

definition defer_inv :: "'v deferred \<Rightarrow> bool" where
  "defer_inv D \<longleftrightarrow>
     (d_waiting D \<noteq> [] \<longrightarrow> d_first D \<noteq> None)
     \<and> (d_state D = DLoading \<longrightarrow> d_first D \<noteq> None)
     \<and> (d_state D = DInit \<longrightarrow> d_starts D = 0 \<and> d_first D = None)
     \<and> d_starts D \<le> 1"

lemma defer_inv_new: "defer_inv defer_new"
  by (simp add: defer_inv_def defer_new_def)

lemma defer_inv_step: "defer_inv D \<Longrightarrow> defer_inv (defer_step e D)"
  by (cases e) (auto simp: defer_inv_def Let_def split: dstate.splits option.splits)

lemma pending_step:
  "defer_inv D \<Longrightarrow> pending (defer_step e D) = pending D + mset (callers [e])"
proof (cases e)
  case (Settle r)
  assume "defer_inv D"
  then show ?thesis using Settle
    by (cases "d_first D") (auto simp: pending_def defer_inv_def Let_def comp_def)
qed (auto simp: pending_def defer_inv_def split: dstate.splits)

lemma callers_append: "callers (xs @ ys) = callers xs @ callers ys"
  by (induction xs rule: callers.induct) simp_all

lemma defer_run_snoc: "defer_run (evs @ [e]) = defer_step e (defer_run evs)"
  by (simp add: defer_run_def)

lemma defer_inv_run: "defer_inv (defer_run evs)"
proof (induction evs rule: rev_induct)
  case Nil
  then show ?case using defer_inv_new by (simp add: defer_run_def)
qed (simp add: defer_run_snoc defer_inv_step)

lemma pending_run: "pending (defer_run evs) = mset (callers evs)"
proof (induction evs rule: rev_induct)
  case Nil
  then show ?case by (simp add: defer_run_def defer_new_def pending_def)
next
  case (snoc e evs)
  then show ?case using pending_step [OF defer_inv_run [of evs], of e]
    by (simp add: defer_run_snoc callers_append)
qed

lemma settle_answers:
  "defer_inv D \<Longrightarrow> d_first (defer_step (Settle r) D) = None \<and> d_waiting (defer_step (Settle r) D) = []"
  by (cases "d_first D") (auto simp: defer_inv_def Let_def)

text \<open>
  C22 (the loader runs once): whatever calls of \<open>result()\<close>, settlings and
  \<open>reslove\<close> calls happen, the loader of a \<open>Defer\<close> is started at most once.
\<close>

theorem defer_starts_once: "d_starts (defer_run evs) \<le> 1"
  using defer_inv_run [of evs] by (simp add: defer_inv_def)

text \<open>
  C28 (every call is answered): once the loader's promise settles, every caller of
  \<open>result()\<close> so far has received exactly one answer.
\<close>

theorem defer_answers_all:
  "mset (map fst (d_out (defer_run (evs @ [Settle r])))) = mset (callers evs)"
proof -
  have "pending (defer_run (evs @ [Settle r])) = mset (callers evs)"
    using pending_run [of "evs @ [Settle r]"] by (simp add: callers_append)
  moreover have "d_first (defer_run (evs @ [Settle r])) = None \<and> d_waiting (defer_run (evs @ [Settle r])) = []"
    using settle_answers [OF defer_inv_run [of evs]] by (simp add: defer_run_snoc)
  ultimately show ?thesis by (simp add: pending_def)
qed

lemma defer_fail_split:
  "d_out (defer_run [Call 1, Call 2, Settle Fail, Call 3]) = [(1, Ret None), (2, Throw), (3, Ret None)]"
  by (simp add: defer_run_def defer_new_def Let_def)

lemma defer_reslove_overwritten:
  "d_out (defer_run [Call 1, Reslove (Some a), Call 2, Settle (Ok (Some b)), Call 3])
     = [(2, Ret (Some a)), (1, Ret (Some b)), (3, Ret (Some b))]"
  by (simp add: defer_run_def defer_new_def Let_def)

end
