(* ===== verification/Spec2Isabelle.thy ===== *)
theory Spec2Isabelle
  imports Scheduler WcTag Color WcFor Router TplData HotLoader TplSugar TplPath Message Defer
begin

text \<open>
  \<^bold>\<open>A verification library for the WCEX web-component runtime.\<close>

  The repository's runtime (the \<open>code/src\<close> tree of the archive folder under \<open>src\<close>,
  and the worker library \<open>src/lib/src\<close>) turns HTML templates into web components
  that re-render when data they read changes. Its parts, and how they meet:
  \<^item> the change-tracking engine \<open>Observer.ts\<close>: objects are wrapped in proxies
    (\<open>_mkProxy\<close>); while a binder runs inside \<open>trackCall\<close>, every property it reads is
    recorded in the object's dependency index (class \<open>Depends\<close>) as an edge to a pair
    (component id, binding key); a write walks the edges (\<open>_noticeChange\<close>), resolves
    each key through the component registry (\<open>WcRegister.ts\<close>) and adds the binders to
    a global pending set, which \<open>_applyTracker20ms\<close> flushes once per frame;
  \<^item> the template pipeline (\<open>Tpl.ts\<close>): the page configuration (\<open>HtmlMeta.ts\<close>) and
    the tag names (\<open>WcTag.ts\<close>) locate a template; \<open>_TplData\<close> parses its declared
    properties; \<open>_preProcessElem\<close> expands the syntax sugar; \<open>_parseElemTpl\<close> numbers
    the elements and compiles their binders; \<open>_relPath\<close> resolves the paths a template
    uses; the component (\<open>Wc.ts\<close>) then applies attributes, events, \<open>$show\<close>, \<open>$for\<close>
    and \<open>$if\<close>, looking the binders up by the keys the compiler made;
  \<^item> the package loader (\<open>UmdLoader.ts\<close>), whose chunks, files and packages each keep a
    deferred result (\<open>Defer.ts\<close>);
  \<^item> helpers: \<open>Utils.ts\<close>, the router (\<open>Router.ts\<close>), the colour plugin
    (\<open>plugins/$color.ts\<close>), and the message layer between the main thread and the
    worker (\<open>src/lib/src/message.ts\<close>).

  \<^bold>\<open>Theories.\<close> Each models one part; state is a record passed explicitly, JS \<open>Map\<close>s
  and objects are insertion-ordered association lists, errors are \<open>option\<close> or sum values.
  \<^item> \<open>Prelude\<close>: JS \<open>Map\<close> (\<open>jm_set\<close>, \<open>jm_delete\<close>) and \<open>Set\<close> (\<open>js_add\<close>, \<open>js_delete\<close>)
    and the shared lemmas (\<open>foldl_invariant\<close> carries every invariant over a sequence of
    operations). \<open>JsString\<close>: \<open>split\<close>, \<open>join\<close>, \<open>trim\<close>, case mapping, the URI codecs.
    \<open>JsNum\<close>: JS numbers with \<open>NaN\<close> and infinities, \<open>parseInt\<close>, \<open>parseFloat\<close>.
  \<^item> \<open>Registry\<close>, \<open>Depends\<close>, \<open>Heap\<close>, \<open>Observer\<close>, \<open>Scheduler\<close>: \<open>ElementRegister\<close> and
    a component's binder map; the dependency index and its invariant \<open>dep_inv\<close>; the heap
    of objects and the wrapper \<open>mkProxy\<close>; the engine state \<open>obs_state\<close> with the proxy
    traps, the \<open>_watchProperty\<close> accessors and \<open>trackCall\<close>; the flush \<open>flush_loop\<close>.
  \<^item> \<open>Utils\<close>: \<open>_joinUrl\<close>, the case conversions, \<open>_checkBool\<close>, \<open>objectGet\<close>,
    \<open>_delayCall\<close> (timers as an event queue), \<open>once\<close>, \<open>_walkChild\<close>, \<open>_extNameFromUrl\<close>.
  \<^item> \<open>HtmlMeta\<close> (\<open>_HtmlMetaParser\<close> as a fold of \<open>meta_step\<close>), \<open>WcTag\<close>
    (\<open>_parseTag\<close>, \<open>_buildTag\<close>), \<open>Router\<close> (\<open>parse\<close>, \<open>_buildHash\<close>, \<open>go\<close>), \<open>Color\<close>
    (\<open>Hsla\<close>, \<open>_loadColors\<close>).
  \<^item> \<open>TplData\<close> (\<open>_TplData\<close>: \<open>init\<close>, \<open>_parseAttrs\<close>, \<open>_parseValue\<close>, \<open>setData\<close>),
    \<open>TplSugar\<close> (\<open>_preProcessElem\<close> and the two-way binding helpers), \<open>TplCompile\<close>
    (\<open>_parseElemTpl\<close>, \<open>_processElem\<close>, \<open>_mkScopeBinder\<close>, the root binders),
    \<open>TplPath\<close> (\<open>_relPath\<close>); a template is a tree \<open>tnode\<close> of elements and texts.
  \<^item> \<open>WcFor\<close> (\<open>_apply$For\<close>, \<open>_forObjForEach\<close>, the sort comparator, \<open>_apply$If\<close>)
    and \<open>WcElem\<close> (event specifications, attribute dispatch, \<open>$show\<close>, animation classes).
  \<^item> \<open>UmdLoader\<close>: the registry of files, packages, chunks and plugins as a store of
    file objects shared by the loader and the packages, \<open>define\<close>, the export choice and
    \<open>requireExports\<close>; operations return their error together with the state at the throw.
  \<^item> \<open>HotLoader\<close>: the component name of a change notice and \<open>_doHotUpdate\<close>: the
    removal of the component's files from the loader (\<open>UmdLoader\<close>'s
    \<open>removeFileMatched\<close>) and the reload of each tag by \<open>_updateTag\<close>, in the code's
    order; \<open>_updateTag\<close> is a parameter standing for its effect on the loader (the
    template reload fetches the component's files again).
  \<^item> \<open>Defer\<close>: \<open>result()\<close>, the settling of the loader and \<open>reslove\<close> as events, so that
    interleavings of concurrent callers are explicit sequences.
  \<^item> \<open>Message\<close>: the per-thread state of \<open>message.ts\<close>, \<open>MessageBase\<close> (\<open>send\<close>, \<open>on\<close>),
    the message listener and the module start; the composition of two threads is
    \<open>receive\<close> applied to what the other thread posted.
  \<^item> this theory: a worked engine configuration, the end-to-end property C1, and a
    concrete witness for every property with a hypothesis.

  \<^bold>\<open>What is proved.\<close> The engine: edge creation and notification end to end (C1);
  quarantine and the error path of \<open>trackCall\<close> (C3, C4); flush order, budget and the
  ready gate (C5, C6, C20); exact pruning and scheduling (C7, C8); the registry and the
  heap invariants (C19, C21) and the totality of the wrapper on cyclic graphs (C15);
  the departures from the specification C9, C10, C12--C14. The templates: a \<open>$$\<close>
  binding becomes the two-way binding \<open>_bidirBindValue\<close> builds (C11); element ids are
  allocated consecutively (C17); \<open>$for(v,k)\<close> names are recognised (C31); every
  compiled \<open>@\<close> attribute finds its binder through the key the component looks up
  (C26, a composition of \<open>TplCompile\<close> and \<open>WcElem\<close>); a \<open>.prevent\<close> listener is
  never passive (C36); template data stays typed (C40); \<open>$for\<close> refines its abstract
  list semantics (C37) and its comparator (C38); npm references split back into package
  and path (C25). The loader: a hot update reloads the page's tag only after the
  component's files were dropped (C33); a \<open>Defer\<close> starts its loader once (C22) and
  answers every caller once it settles (C28). The messages: requests sent before the
  worker is ready are posted in order with their ids (C2); a request and its reply settle
  exactly the sender's deferred reply (C16) and the per-thread invariant holds (C18).
  The helpers: C23, C24, C27, C29, C30, C32, C34, C35, C39. Lemmas that are no claims
  keep further results: the dependency index invariant (\<open>Depends.dep_inv_noticeChange\<close>),
  the loader's registry invariant over any sequence of operations
  (\<open>UmdLoader.umd_wf_reachable\<close>), no duplicate pending function
  (\<open>Observer.pending_no_duplicates\<close>), the two walk orders of \<open>_walkChild\<close>
  (\<open>Utils.walk_orders_permute\<close>), and findings by evaluation (for example
  \<open>Color.hex_shorthand_misread\<close>, \<open>Defer.defer_fail_split\<close>,
  \<open>TplPath.relPath_dot_undefined\<close>, \<open>UmdLoader.double_decode_throws\<close>,
  \<open>TplSugar.sugar_empty_scope_stops\<close>).

  \<^bold>\<open>Bounds and fuel.\<close> \<open>mk_proxy\<close> carries fuel; \<open>mkProxy\<close> gives one more than the
  number of objects without a dependency index, which bounds the depth of recursion
  (C15). The flush may run forever in the code; it is a \<open>partial_function (option)\<close>
  with the clock a parameter, and returning is proved under the conditions that make the
  code return (C6). \<open>_forObjForEach\<close> on \<open>Infinity\<close> does not return and is \<open>None\<close>. All
  other loops are structural recursion over lists or template trees. Message ids are
  unbounded naturals: the code's numbers are exact up to \<open>2^53\<close>, far above any run.

  \<^bold>\<open>Not modelled.\<close> Symbol-keyed properties, the prototype proxy of class instances
  and property descriptors in the engine; the DOM itself (elements are records or
  trees, \<open>innerHTML\<close> parsing is reduced to the lower-casing of attribute names);
  fetching, script evaluation and the asynchronous parts of \<open>_Tpl._load\<close>,
  \<open>UmdLoader.ts\<close> (file loading, dependency loading), the websocket and template
  reload of \<open>HotLoader.ts\<close>, and \<open>Dev.ts\<close>; \<open>StyleParser.ts\<close> and \<open>StylesMonit.ts\<close> (CSS text and DOM
  monitoring); \<open>TplElem.ts\<close> and the plugin stages; \<open>Logger.ts\<close> (console output);
  \<open>Scope.ts\<close> and the type declarations (interfaces without behaviour); in \<open>src/lib\<close>,
  \<open>mainComponent.ts\<close>, \<open>workerLoader.ts\<close> and \<open>index.ts\<close> (DOM and worker set-up),
  and the library \<open>Defer\<close> the message layer imports, which is not in the repository:
  its \<open>result(TIMEOUT)\<close> is modelled as a rejection event.

  \<^bold>\<open>Simplifications.\<close> A reader should know these limits of the model. In the
  engine, the \<open>get\<close> trap (\<open>proxy_get\<close>) returns \<open>undefined\<close> for methods inherited
  from a prototype; writing an array index (\<open>write_prop\<close>) does not update
  \<open>length\<close>; \<open>mk_children\<close> omits the dependency that a \<open>PWatch\<close> getter records
  through \<open>_autoTrackDeps\<close>. The case conversions (\<open>kebabCase\<close>, \<open>buildTag\<close>,
  \<open>to_lower\<close>) map ASCII letters only. \<open>once\<close> and \<open>setData\<close> treat inherited keys
  as absent. \<open>walkChild\<close> reads a tree that does not change during the walk. In
  \<open>defer_step\<close>, a reentrant \<open>result()\<close> before \<open>_promise\<close> is set waits like any
  other caller. The loader addresses file objects through an id store. \<open>bidirBindValue\<close>
  takes attribute values verbatim, so a value holding a double quote, which the code's
  re-parse would split, is not distinguished. \<open>parse\<close> of the router omits its
  redundant \<open>name\<close> field.
\<close>

section \<open>A worked configuration\<close>

text \<open>
  One counter object \<open>{count: 0}\<close> already wrapped (it has an empty dependency index and
  is marked proxied) at address 0, and one live component (id 1) whose binding key
  \<open>a\<close> resolves to function 7. Functions 3 and 4 are pending in \<open>ex_pending\<close>.
\<close>

definition ex_obj :: js_obj where
  "ex_obj = \<lparr>kind = KPlain, props = [(''count'', PData (JNum 0))], observer = Some [],
     proxied = True, extensible = True, system_obj = False\<rparr>"

definition ex_el :: wc_el where
  "ex_el = \<lparr>el_tag = ''X-COUNTER'', el_binders = [(''a'', BFun 7)]\<rparr>"

definition ex_register :: el_register where
  "ex_register = \<lparr>id_counter = 2, register_map = [(1, ex_el)]\<rparr>"

definition ex_tracker :: depends_tracker where
  "ex_tracker = \<lparr>callerSet = [], realtimeNotices = 0, fn_tracker_tag = Map.empty\<rparr>"

definition ex_state :: obs_state where
  "ex_state = \<lparr>heap = [ex_obj], depsTracker = None, badFunctionsSet = [],
     dependsTracker = ex_tracker, wcRegister = ex_register, wcex_ready = True,
     onSet_objs = [], onSet_calls = []\<rparr>"

text \<open>The same object after a binder of component 1 under key \<open>a\<close> has read \<open>count\<close>.\<close>

definition ex_deps :: depends where
  "ex_deps = [(PStr ''count'', [(1, [''a'']), (2, [''b''])]), (PSelf, [(1, [''a''])])]"

definition ex_tracked :: obs_state where
  "ex_tracked = ex_state\<lparr>heap := [ex_obj\<lparr>observer := Some ex_deps\<rparr>]\<rparr>"

definition ex_pending :: obs_state where
  "ex_pending = ex_state\<lparr>dependsTracker := ex_tracker\<lparr>callerSet := [3, 4]\<rparr>\<rparr>"

text \<open>An unwrapped array \<open>[]\<close> whose \<open>length\<close> component 1 reads under key \<open>a\<close>.\<close>

definition ex_array :: js_obj where
  "ex_array = \<lparr>kind = KArray, props = [(''length'', PData (JNum 0))],
     observer = Some [(PStr ''length'', [(1, [''a''])])],
     proxied = True, extensible = True, system_obj = False\<rparr>"

text \<open>A fresh object graph: object 0 holds object 1 under \<open>child\<close>, not yet wrapped.\<close>

definition ex_raw :: heap where
  "ex_raw = [\<lparr>kind = KPlain, props = [(''child'', PData (JRef (Raw 1)))], observer = None,
       proxied = False, extensible = True, system_obj = False\<rparr>,
     \<lparr>kind = KPlain, props = [(''n'', PData (JNum 1))], observer = None,
       proxied = False, extensible = True, system_obj = False\<rparr>]"

text \<open>The same graph after \<open>_mkProxy\<close> of object 0: both wrapped, the link rewritten.\<close>

definition ex_wrapped :: heap where
  "ex_wrapped = [\<lparr>kind = KPlain, props = [(''child'', PData (JRef (Prox 1)))], observer = Some [],
       proxied = True, extensible = True, system_obj = False\<rparr>,
     \<lparr>kind = KPlain, props = [(''n'', PData (JNum 1))], observer = Some [],
       proxied = True, extensible = True, system_obj = False\<rparr>]"

lemmas ex_defs = ex_obj_def ex_el_def ex_register_def ex_tracker_def ex_state_def ex_deps_def
  ex_tracked_def ex_pending_def ex_array_def ex_raw_def ex_wrapped_def

section \<open>End-to-end property\<close>

lemma prop_value_same: "props ob' = props ob \<Longrightarrow> prop_value ob' p = prop_value ob p"
  by (simp add: prop_value_def)

text \<open>
  C1 (edge creation and notification): when a binder of consumer \<open>w\<close> under key
  \<open>k\<close> reads property \<open>p\<close> of a tracked plain object through its proxy inside
  \<open>trackCall\<close>, and afterwards \<open>p\<close> is assigned a different value (or any
  primitive) through the proxy, every function the key \<open>k\<close> of the live consumer
  \<open>w\<close> resolves to is pending.
\<close>

theorem edge_creation:
  assumes g: "g \<notin> set (badFunctionsSet s)" and ob: "obj_at (heap s) a = Some ob"
    and plain: "kind ob = KPlain" and D: "observer ob = Some D"
    and r: "\<forall>b. r \<noteq> JRef (Prox b)"
    and f: "f \<in> set (resolved_fns (wcRegister s) w k)"
    and ch: "\<not> typeof_object (prop_value ob p) \<or> prop_value ob p \<noteq> v"
  shows "f \<in> set (callerSet (dependsTracker
           (proxy_set a p v (snd (trackCall w k g [AGet (Prox a) p] (Returns r) s)))))"
proof -
  let ?sa = "s\<lparr>depsTracker := Some (w, k)\<rparr>"
  let ?sb = "snd (proxy_get a p ?sa)"
  let ?D' = "addDeps PSelf (w, k) (addDeps (PStr p) (w, k) D)"
  have ob_a: "obj_at (heap ?sa) a = Some ob" using ob by simp
  have deps: "obj_deps ?sb a = Some ?D'"
    using proxy_get_records_edge [of ?sa w k a ob D p] ob_a plain D by simp
  have touch: "touch_result r ?sb = ?sb"
    using r by (auto simp: touch_result_def split: jsval.splits ref.splits)
  have s1: "snd (trackCall w k g [AGet (Prox a) p] (Returns r) s) = ?sb\<lparr>depsTracker := None\<rparr>"
    using g touch unfolding trackCall_def trackCall_with_def Let_def by simp
  obtain ob' where ob': "obj_at (heap ?sb) a = Some ob'" and kp: "kind ob' = kind ob" "props ob' = props ob"
    using obj_at_shape [OF shape_proxy_get ob_a] by blast
  have obs': "observer ob' = Some ?D'"
    using deps ob' by (simp add: obj_deps_def)
  have edge: "has_edge ?D' (PStr p) w k" by (simp add: has_edge_addDeps)
  have reg: "wcRegister ?sb = wcRegister s" by (simp add: register_proxy_get)
  have ch': "\<not> typeof_object (prop_value ob' p) \<or> prop_value ob' p \<noteq> v"
    using ch prop_value_same [OF kp(2), of p] by simp
  have "f \<in> set (callerSet (dependsTracker (proxy_set a p v (?sb\<lparr>depsTracker := None\<rparr>))))"
  proof (rule proxy_set_schedules)
    show "obj_at (heap (?sb\<lparr>depsTracker := None\<rparr>)) a = Some ob'" using ob' by simp
    show "observer ob' = Some ?D'" by (rule obs')
    show "has_edge ?D' (PStr p) w k" by (rule edge)
    show "f \<in> set (resolved_fns (wcRegister (?sb\<lparr>depsTracker := None\<rparr>)) w k)" using f reg by simp
    show "\<not> typeof_object (prop_value ob' p) \<or> prop_value ob' p \<noteq> v" by (rule ch')
  qed
  then show ?thesis by (simp only: s1)
qed

section \<open>Witnesses\<close>

theorem edge_creation_witness:
  "7 \<in> set (callerSet (dependsTracker
     (proxy_set 0 ''count'' (JNum 5) (snd (trackCall 1 ''a'' 9 [AGet (Prox 0) ''count''] (Returns (JNum 0)) ex_state)))))"
  using edge_creation [of 9 ex_state 0 ex_obj "[]" "JNum 0" 7 1 "''a''" "''count''" "JNum 5"]
  by (simp add: ex_defs obj_at_def resolved_fns_def getEl_def binder_fns_def findBinderFunc_def
      prop_value_def)

theorem pending_no_duplicates_witness:
  "distinct (callerSet (dependsTracker ex_tracked)) \<and>
   count_list (callerSet (dependsTracker
     (run_accesses [ASet (Prox 0) ''count'' (JNum 1), ASet (Prox 0) ''count'' (JNum 2)] ex_tracked))) 7 \<le> 1"
proof
  show "distinct (callerSet (dependsTracker ex_tracked))" by (simp add: ex_defs)
  then show "count_list (callerSet (dependsTracker
     (run_accesses [ASet (Prox 0) ''count'' (JNum 1), ASet (Prox 0) ''count'' (JNum 2)] ex_tracked))) 7 \<le> 1"
    by (rule Observer.pending_no_duplicates)
qed

theorem trackCall_quarantined_witness:
  "9 \<in> set (badFunctionsSet (ex_state\<lparr>badFunctionsSet := [9]\<rparr>)) \<and>
   trackCall 1 ''a'' 9 [ASet (Prox 0) ''count'' (JNum 5)] (Returns (JNum 1))
     (ex_state\<lparr>badFunctionsSet := [9]\<rparr>) =
   (JUndef, ex_state\<lparr>badFunctionsSet := [9], depsTracker := None\<rparr>)"
  using trackCall_quarantined [of 9 "ex_state\<lparr>badFunctionsSet := [9]\<rparr>" 1 "''a''"
      "[ASet (Prox 0) ''count'' (JNum 5)]" "Returns (JNum 1)"]
  by simp

theorem trackCall_throw_quarantines_witness:
  "9 \<notin> set (badFunctionsSet ex_tracked) \<and>
   fst (trackCall 1 ''a'' 9 [AGet (Prox 0) ''count''] Throws ex_tracked) = JUndef
   \<and> depsTracker (snd (trackCall 1 ''a'' 9 [AGet (Prox 0) ''count''] Throws ex_tracked)) = None
   \<and> 9 \<in> set (badFunctionsSet (snd (trackCall 1 ''a'' 9 [AGet (Prox 0) ''count''] Throws ex_tracked)))
   \<and> getEl (wcRegister (snd (trackCall 1 ''a'' 9 [AGet (Prox 0) ''count''] Throws ex_tracked))) 1 =
       map_option (removeBinderKey ''a'')
         (getEl (wcRegister (run_accesses [AGet (Prox 0) ''count''] (ex_tracked\<lparr>depsTracker := Some (1, ''a'')\<rparr>))) 1)
   \<and> fst (trackCall 2 ''b'' 9 [] (Returns (JNum 3))
       (snd (trackCall 1 ''a'' 9 [AGet (Prox 0) ''count''] Throws ex_tracked))) = JUndef"
proof
  show "9 \<notin> set (badFunctionsSet ex_tracked)" by (simp add: ex_defs)
  then show "fst (trackCall 1 ''a'' 9 [AGet (Prox 0) ''count''] Throws ex_tracked) = JUndef
   \<and> depsTracker (snd (trackCall 1 ''a'' 9 [AGet (Prox 0) ''count''] Throws ex_tracked)) = None
   \<and> 9 \<in> set (badFunctionsSet (snd (trackCall 1 ''a'' 9 [AGet (Prox 0) ''count''] Throws ex_tracked)))
   \<and> getEl (wcRegister (snd (trackCall 1 ''a'' 9 [AGet (Prox 0) ''count''] Throws ex_tracked))) 1 =
       map_option (removeBinderKey ''a'')
         (getEl (wcRegister (run_accesses [AGet (Prox 0) ''count''] (ex_tracked\<lparr>depsTracker := Some (1, ''a'')\<rparr>))) 1)
   \<and> fst (trackCall 2 ''b'' 9 [] (Returns (JNum 3))
       (snd (trackCall 1 ''a'' 9 [AGet (Prox 0) ''count''] Throws ex_tracked))) = JUndef"
    by (rule trackCall_throw_quarantines)
qed

theorem flush_loop_prefix_witness:
  "keeps_pending (\<lambda>f s. s) \<and> distinct (callerSet (dependsTracker ex_pending))
   \<and> flush_loop (\<lambda>f s. s) (\<lambda>n. 0) 0 ex_pending = Some (ex_state, [3, 4])
   \<and> [3, 4] = take 2 (callerSet (dependsTracker ex_pending))
   \<and> callerSet (dependsTracker ex_state) = drop 2 (callerSet (dependsTracker ex_pending))"
proof -
  have k: "keeps_pending (\<lambda>f s. s)" by (simp add: keeps_pending_def)
  have d: "distinct (callerSet (dependsTracker ex_pending))" by (simp add: ex_defs)
  let ?s1 = "ex_state\<lparr>dependsTracker := ex_tracker\<lparr>callerSet := [4]\<rparr>\<rparr>"
  have st1: "flush_step (\<lambda>f s. s) 3 ex_pending = ?s1"
    by (simp add: ex_defs flush_step_def js_delete_def)
  have st2: "flush_step (\<lambda>f s. s) 4 ?s1 = ex_state"
    by (simp add: ex_defs flush_step_def js_delete_def)
  have l2: "flush_loop (\<lambda>f s. s) (\<lambda>n. 0) (Suc (Suc 0)) ex_state = Some (ex_state, [])"
    by (rule flush_loop_Nil) (simp add: ex_defs)
  have l1: "flush_loop (\<lambda>f s. s) (\<lambda>n. 0) (Suc 0) ?s1 = Some (ex_state, [4])"
    using flush_loop_Cons [of ?s1 4 "[]" "\<lambda>f s. s" "\<lambda>n. 0" "Suc 0"] st2 l2 by simp
  have l: "flush_loop (\<lambda>f s. s) (\<lambda>n. 0) 0 ex_pending = Some (ex_state, [3, 4])"
    using flush_loop_Cons [of ex_pending 3 "[4]" "\<lambda>f s. s" "\<lambda>n. 0" 0] st1 l1
    by (simp add: ex_defs)
  show ?thesis using flush_loop_prefix [OF k d l] k d l by (simp add: numeral_2_eq_2)
qed

theorem flush_loop_budget_stops_witness:
  "0 < (20::nat) \<and> 20 mod 20 = (0::nat) \<and> 20 < (\<lambda>n::nat. 25::nat) 20 \<and>
   (\<exists>r. flush_loop (\<lambda>f s. s) (\<lambda>n. 25) 0 ex_pending = Some r)"
  using flush_loop_budget_stops [of 0 20 "\<lambda>n. 25" "\<lambda>f s. s" ex_pending] by simp

theorem has_edge_noticeChange_witness:
  "has_edge ex_deps (PStr ''count'') 2 ''b'' \<and> \<not> resolves ex_register 2 ''b''
   \<and> \<not> has_edge (fst (noticeChange ex_register (PStr ''count'') ex_deps ex_tracker)) (PStr ''count'') 2 ''b''
   \<and> has_edge (fst (noticeChange ex_register (PStr ''count'') ex_deps ex_tracker)) PSelf 1 ''a''"
  using has_edge_noticeChange [of ex_register "PStr ''count''" ex_deps ex_tracker "PStr ''count''" 2 "''b''"]
    has_edge_noticeChange [of ex_register "PStr ''count''" ex_deps ex_tracker PSelf 1 "''a''"]
  by (simp add: ex_defs has_edge_def resolves_def getEl_def)

theorem noticeChange_schedules_witness:
  "dep_inv ex_deps \<and>
   set (callerSet (snd (noticeChange ex_register (PStr ''count'') ex_deps ex_tracker))) =
     set (callerSet ex_tracker) \<union>
     {f. \<exists>w k. has_edge ex_deps (PStr ''count'') w k \<and> f \<in> set (resolved_fns ex_register w k)}"
proof
  show "dep_inv ex_deps" by (simp add: ex_defs dep_inv_def dm_inv_def jm_all_def)
  then show "set (callerSet (snd (noticeChange ex_register (PStr ''count'') ex_deps ex_tracker))) =
     set (callerSet ex_tracker) \<union>
     {f. \<exists>w k. has_edge ex_deps (PStr ''count'') w k \<and> f \<in> set (resolved_fns ex_register w k)}"
    by (rule noticeChange_schedules)
qed

lemmas wrap_defs = mkProxy_def unobserved_def obj_at_def own_string_keys_def is_array_index_def
  is_digit_def digits_value_def mark_observed_def mark_proxied_def write_prop_def

lemma ex_mkProxy: "mkProxy ex_raw (JRef (Raw 0)) = Some (ex_wrapped, JRef (Prox 0))"
  by (simp add: ex_defs wrap_defs)

theorem mkProxy_rewrap_raw_witness:
  "heap_inv ex_raw \<and> mkProxy ex_raw (JRef (Raw 0)) = Some (ex_wrapped, JRef (Prox 0))
   \<and> mkProxy ex_wrapped (JRef (Raw 0)) = Some (ex_wrapped, JRef (Raw 0))"
proof -
  have inv: "heap_inv ex_raw" by (simp add: heap_inv_def ex_defs)
  show ?thesis using mkProxy_rewrap_raw [OF inv ex_mkProxy] inv ex_mkProxy by simp
qed

lemmas lookup_defs = obj_at_def prop_value_def has_edge_def resolved_fns_def getEl_def
  binder_fns_def findBinderFunc_def

theorem same_primitive_write_notifies_witness:
  "obj_at (heap ex_tracked) 0 = Some (ex_obj\<lparr>observer := Some ex_deps\<rparr>)
   \<and> prop_value ex_obj ''count'' = JNum 0 \<and> has_edge ex_deps (PStr ''count'') 1 ''a''
   \<and> 7 \<in> set (resolved_fns (wcRegister ex_tracked) 1 ''a'')
   \<and> 7 \<in> set (callerSet (dependsTracker (proxy_set 0 ''count'' (JNum 0) ex_tracked)))"
  using same_primitive_write_notifies [of ex_tracked 0 "ex_obj\<lparr>observer := Some ex_deps\<rparr>" ex_deps
      "''count''" "JNum 0" 1 "''a''" 7]
  by (simp add: ex_defs lookup_defs)

theorem same_object_write_silent_witness:
  "obj_at ex_wrapped 0 = Some (hd ex_wrapped) \<and> kind (hd ex_wrapped) \<noteq> KArray
   \<and> map_of (props (hd ex_wrapped)) ''child'' = Some (PData (JRef (Prox 1)))
   \<and> proxy_set 0 ''child'' (JRef (Prox 1)) (ex_state\<lparr>heap := ex_wrapped\<rparr>) = ex_state\<lparr>heap := ex_wrapped\<rparr>"
  using same_object_write_silent [of "ex_state\<lparr>heap := ex_wrapped\<rparr>" 0 "hd ex_wrapped" "''child''"
      "JRef (Prox 1)"]
  by (simp add: ex_defs obj_at_def)

theorem array_mutator_access_notifies_witness:
  "obj_at [ex_array] 0 = Some ex_array \<and> kind ex_array = KArray
   \<and> has_edge (the (observer ex_array)) (PStr ''length'') 1 ''a''
   \<and> 7 \<in> set (callerSet (dependsTracker (snd (proxy_get 0 ''push'' (ex_state\<lparr>heap := [ex_array]\<rparr>)))))"
  using array_mutator_access_notifies [of "ex_state\<lparr>heap := [ex_array]\<rparr>" 0 ex_array
      "the (observer ex_array)" "''push''" 1 "''a''" 7]
  by (simp add: ex_defs lookup_defs array_mutators_def)

theorem nested_trackCall_untracks_outer_reads_witness:
  "obj_at (heap (run_access (ATrack 1 ''b'' 8 [] (Returns JUndef)) (ex_tracked\<lparr>depsTracker := Some (1, ''a'')\<rparr>))) 0
     = Some (ex_obj\<lparr>observer := Some ex_deps\<rparr>)
   \<and> run_accesses [ATrack 1 ''b'' 8 [] (Returns JUndef), AGet (Prox 0) ''count'']
       (ex_tracked\<lparr>depsTracker := Some (1, ''a'')\<rparr>) =
     run_access (ATrack 1 ''b'' 8 [] (Returns JUndef)) (ex_tracked\<lparr>depsTracker := Some (1, ''a'')\<rparr>)"
proof -
  have ob: "obj_at (heap (run_access (ATrack 1 ''b'' 8 [] (Returns JUndef))
      (ex_tracked\<lparr>depsTracker := Some (1, ''a'')\<rparr>))) 0 = Some (ex_obj\<lparr>observer := Some ex_deps\<rparr>)"
    by (simp add: ex_defs obj_at_def trackCall_with_def touch_result_def)
  show ?thesis using nested_trackCall_untracks_outer_reads [OF ob] ob by (simp add: ex_defs)
qed

theorem mkProxy_total_witness: "\<exists>r. mkProxy ex_raw (JRef (Raw 0)) = Some r"
  by (rule mkProxy_total)

theorem flush_loop_static_stops_witness:
  "keeps_pending (\<lambda>f s. s) \<and> (\<exists>r. flush_loop (\<lambda>f s. s) (\<lambda>n. 0) 0 ex_pending = Some r)"
proof
  show "keeps_pending (\<lambda>f s. s)" by (simp add: keeps_pending_def)
  then show "\<exists>r. flush_loop (\<lambda>f s. s) (\<lambda>n. 0) 0 ex_pending = Some r"
    by (rule flush_loop_static_stops)
qed

lemma ex_dep_inv: "dep_inv ex_deps"
  by (simp add: ex_defs dep_inv_def dm_inv_def jm_all_def)

theorem dep_inv_noticeChange_witness:
  "dep_inv ex_deps \<and> dep_inv (fst (noticeChange ex_register (PStr ''count'') ex_deps ex_tracker))"
  using dep_inv_noticeChange [OF ex_dep_inv] ex_dep_inv by simp

theorem dep_inv_addDeps_witness:
  "dep_inv ex_deps \<and> dep_inv (addDeps (PStr ''count'') (2, ''c'') ex_deps)"
  using dep_inv_addDeps [OF ex_dep_inv] ex_dep_inv by simp

theorem register_getEl_witness:
  "reg_inv ex_register \<and> register ex_el ex_register = (2, snd (register ex_el ex_register))
   \<and> getEl (snd (register ex_el ex_register)) 2 = Some ex_el
   \<and> getEl (unregister 2 (snd (register ex_el ex_register))) 2 = None"
proof -
  have inv: "reg_inv ex_register" by (simp add: ex_defs reg_inv_def)
  have r: "register ex_el ex_register = (2, snd (register ex_el ex_register))"
    by (simp add: ex_defs register_def)
  show ?thesis using register_getEl [OF inv r] inv r by simp
qed

theorem applyTracker20ms_gate_witness:
  "\<not> wcex_ready (ex_pending\<lparr>wcex_ready := False\<rparr>)
   \<and> applyTracker20ms (\<lambda>f s. s) (\<lambda>n. 0) (ex_pending\<lparr>wcex_ready := False\<rparr>)
       = Some (ex_pending\<lparr>wcex_ready := False\<rparr>, [])"
  using applyTracker20ms_gate [of "ex_pending\<lparr>wcex_ready := False\<rparr>" "\<lambda>f s. s" "\<lambda>n. 0"] by simp

theorem mkProxy_heap_inv_witness:
  "heap_inv ex_raw \<and> mkProxy ex_raw (JRef (Raw 0)) = Some (ex_wrapped, JRef (Prox 0)) \<and> heap_inv ex_wrapped"
proof -
  have inv: "heap_inv ex_raw" by (simp add: heap_inv_def ex_defs)
  show ?thesis using mkProxy_heap_inv [OF inv ex_mkProxy] inv ex_mkProxy by simp
qed

subsection \<open>Witnesses for the library utilities, the page configuration and the tags\<close>

theorem joinUrl_idem_witness:
  "joinUrl [Some (joinUrl [Some ''a'', Some ''b''])] = joinUrl [Some ''a'', Some ''b'']"
proof -
  have h: "\<not> ends_with (joinUrl [Some ''a'', Some ''b'']) '':/''"
    by (simp add: joinUrl_def url_step_def ends_with_def starts_with_def)
  show ?thesis using Utils.joinUrl_idem [OF h] by simp
qed

theorem joinUrl_dotdot_escapes_root_witness:
  "seg_ok ''app'' \<and> seg_ok ''x'' \<and> joinUrl [Some ''/app'', Some ''../../x''] = ''x''"
proof -
  have a: "seg_ok ''app''" and b: "seg_ok ''x''" by (simp_all add: seg_ok_def)
  show ?thesis using Utils.joinUrl_dotdot_escapes_root [OF a b] a b by simp
qed

theorem kebabToSnake_kebabCase_witness: "kebabToSnake (kebabCase ''fooBar'') = ''fooBar''"
proof -
  have a: "\<forall>c \<in> set ''fooBar''. is_alnum c" by (simp add: is_alnum_def is_upper_def is_lower_def)
  have b: "\<not> is_upper (hd ''fooBar'')" by (simp add: is_upper_def)
  show ?thesis using Utils.kebabToSnake_kebabCase [OF a] b by simp
qed

theorem extNameFromUrl_file_witness:
  "extNameFromUrl (''lib'' @ ''/'' @ ''index'' @ ''.'' @ ''js'') = ''js''"
  by (rule Utils.extNameFromUrl_file) simp_all

theorem checkBool_function_string_witness:
  "checkBool (fun_wrap 1 (CStr '' '')) = False"
  using Utils.checkBool_function_string [of 0 "'' ''"] by (simp add: trim_def is_js_space_def)

theorem objectGet_compose_witness:
  "objectGet (OObj [(''a'', OObj [(''b'', OPrim ''1'')])]) (''a'' @ ''.'' @ ''b'')
     = objectGet (objectGet (OObj [(''a'', OObj [(''b'', OPrim ''1'')])]) ''a'') ''b''"
  by (rule Utils.objectGet_compose)

theorem delayCall_last_call_fires_witness:
  "fired (dc_run (map DCall [1::nat, 2] @ replicate 2 DTick) \<lparr>callNum = 0, timers = [], fired = []\<rparr>) = [2]"
  using Utils.delayCall_last_call_fires [of "\<lparr>callNum = 0, timers = [], fired = []\<rparr>" "[1::nat, 2]"]
  by (simp add: numeral_2_eq_2)

theorem once_factory_once_witness:
  "distinct (factory_runs (snd (once_all [''a'', ''b'', ''a''] \<lparr>once_results = [], factory_runs = []\<rparr>)))"
  using Utils.once_factory_once [of "\<lparr>once_results = [], factory_runs = []\<rparr>" "[''a'', ''b'', ''a'']"]
  by (simp add: once_inv_def)

theorem walk_orders_permute_witness:
  "mset (walkChild (DNode (0::nat) [DNode 1 [DNode 2 []]]) True True)
     = mset (walkChild (DNode (0::nat) [DNode 1 [DNode 2 []]]) True False)"
  by (rule Utils.walk_orders_permute)

theorem npm_meta_trailing_slash_witness:
  "meta_step \<lparr>loc_origin = ''http://h'', loc_pathname = ''/'', loc_protocol = ''http:'', loc_host = ''h''\<rparr> []
      (meta_init \<lparr>loc_origin = ''http://h'', loc_pathname = ''/'', loc_protocol = ''http:'', loc_host = ''h''\<rparr>)
      [(''name'', ''npm''), (''content'', ''http://cdn/npm'')]
   = Some ((meta_init \<lparr>loc_origin = ''http://h'', loc_pathname = ''/'', loc_protocol = ''http:'', loc_host = ''h''\<rparr>)
      \<lparr>npmUrl := ''http://cdn/npm/'', npmCors := False\<rparr>)
   \<and> ends_with ''http://cdn/npm/'' ''/''"
proof -
  let ?L = "\<lparr>loc_origin = ''http://h'', loc_pathname = ''/'', loc_protocol = ''http:'', loc_host = ''h''\<rparr>"
  let ?el = "[(''name'', ''npm''), (''content'', ''http://cdn/npm'')]"
  have m: "meta_step ?L [] (meta_init ?L) ?el
      = Some ((meta_init ?L)\<lparr>npmUrl := ''http://cdn/npm/'', npmCors := False\<rparr>)"
    by (simp add: meta_step_def get_attr_def truthy_def rootUrl_def starts_http_def starts_with_def
        decodeURI_def ends_with_def has_attr_def)
  have n: "get_attr ?el ''name'' = Some ''npm''" by (simp add: get_attr_def)
  show ?thesis using HtmlMeta.npm_meta_trailing_slash [OF n m] m by simp
qed

theorem root_meta_concat_witness:
  "meta_step \<lparr>loc_origin = ''o'', loc_pathname = ''/'', loc_protocol = ''http:'', loc_host = ''h''\<rparr> []
     (meta_init \<lparr>loc_origin = ''o'', loc_pathname = ''/'', loc_protocol = ''http:'', loc_host = ''h''\<rparr>)
     [(''name'', ''root''), (''content'', ''app'')]
   = Some ((meta_init \<lparr>loc_origin = ''o'', loc_pathname = ''/'', loc_protocol = ''http:'', loc_host = ''h''\<rparr>)
       \<lparr>meta_root := Some ''o/node_modulesapp''\<rparr>)"
proof -
  have a: "trim ''app'' = ''app''" by (simp add: trim_def is_js_space_def)
  have b: "\<not> starts_http ''app''" by (simp add: starts_http_def starts_with_def)
  show ?thesis using HtmlMeta.root_meta_concat [OF a _ b] by simp
qed

theorem buildTag_parseTag_witness:
  "ti_pkg (fst (parseTag \<lparr>loc_origin = ''o'', loc_pathname = ''/'', loc_protocol = ''http:'', loc_host = ''h''\<rparr>
      (meta_init \<lparr>loc_origin = ''o'', loc_pathname = ''/'', loc_protocol = ''http:'', loc_host = ''h''\<rparr>)
      (buildTag (Some ''@ui/kit'') ''form/textInput'') None)) = ''@ui/kit''
   \<and> ti_component (fst (parseTag \<lparr>loc_origin = ''o'', loc_pathname = ''/'', loc_protocol = ''http:'', loc_host = ''h''\<rparr>
      (meta_init \<lparr>loc_origin = ''o'', loc_pathname = ''/'', loc_protocol = ''http:'', loc_host = ''h''\<rparr>)
      (buildTag (Some ''@ui/kit'') ''form/textInput'') None)) = ''form/textInput''"
proof -
  have p: "case Some ''@ui/kit'' of None \<Rightarrow> True | Some p \<Rightarrow> pkg_ok p"
    by (simp add: pkg_ok_def scoped_ok_def pkg_char_def is_lower_def is_digit_char_def)
  have c: "comp_ok ''form/textInput''"
    by (simp add: comp_ok_def is_alnum_def is_upper_def is_lower_def is_digit_char_def)
  show ?thesis
    using WcTag.buildTag_parseTag [OF p c,
        where L = "\<lparr>loc_origin = ''o'', loc_pathname = ''/'', loc_protocol = ''http:'', loc_host = ''h''\<rparr>"
          and M = "meta_init \<lparr>loc_origin = ''o'', loc_pathname = ''/'', loc_protocol = ''http:'', loc_host = ''h''\<rparr>"]
    by simp
qed

subsection \<open>Witnesses for the colours and the list rendering\<close>

theorem loadColors_in_range_witness:
  "jm_all hsla_ok (cs_colors (loadColors None \<lparr>st_mode = None, st_colors = SCAbsent\<rparr>
     \<lparr>cs_mode = NNum 1, cs_colors = []\<rparr>))"
  using Color.loadColors_in_range [of "\<lparr>cs_mode = NNum 1, cs_colors = []\<rparr>"] by (simp add: jm_all_def)

theorem hex_shorthand_misread_witness: "hsla_from ''#fff'' \<noteq> hsla_from ''#ffffff''"
  using Color.hex_shorthand_misread by (simp add: mk_hsla_def range_n_def num_gt_def)

theorem apply_for_refines_witness:
  "\<exists>S'. apply_for (\<lambda>v k. v) (<) 0 SortAbsent (FSet [20, 10 :: nat]) ex_for_dom = Some S'
     \<and> map (\<lambda>e. the (fd_scope S' e)) (for_items S' 0) = [(KVal 20, VVal 20), (KVal 10, VVal 10)]"
proof -
  have wf: "for_wf ex_for_dom 0" by (simp add: for_wf_def ex_for_dom_def for_items_def)
  have fe: "for_each (for_sorted (\<lambda>v k. v) (<) SortAbsent (FSet [20, 10 :: nat]))
      = Some [(KVal 20, VVal 20), (KVal 10, VVal 10)]"
    by (simp add: for_each_def for_sorted_def)
  have dk: "distinct (map fst [(KVal (20::nat), VVal (20::nat)), (KVal 10, VVal 10)])" by simp
  show ?thesis using WcFor.apply_for_refines [OF wf fe dk] .
qed

theorem sort_cmp_last_key_witness:
  "sort_cmp (\<lambda>v k. v k) (<) [(''x'', NNum 1), (''y'', NNum 1)]
     (\<lambda>k. if k = ''x'' then 1 else 0 :: nat) (\<lambda>k. if k = ''x'' then 0 else 1) = -1"
  using WcFor.sort_cmp_last_key [of "[]" "(<)" "\<lambda>v k. v k" "\<lambda>k. if k = ''x'' then 1 else 0 :: nat"
      "\<lambda>k. if k = ''x'' then 0 else 1" "''y''" "[(''x'', NNum 1)]" "NNum 1"]
  by (simp add: num_gt_def)

subsection \<open>Witnesses for the router\<close>

lemma go_home_hash:
  "go (GoTag ''home'' [(''a'', ''1'')]) \<lparr>rt_route = [], rt_hash = []\<rparr> =
     (\<lparr>rt_route = [(''default'', \<lparr>r_tag = ''home'', r_attrs = [(''a'', ''1'')]\<rparr>)],
       rt_hash = ''#home%3Fa%3D1''\<rparr>, GoHash ''home%3Fa%3D1'')"
  by code_simp

theorem go_hashchange_witness:
  "hashchange \<lparr>rt_route = [(''default'', \<lparr>r_tag = ''home'', r_attrs = [(''a'', ''1'')]\<rparr>)],
       rt_hash = ''#home%3Fa%3D1''\<rparr>
   = \<lparr>rt_route = [(''default'', \<lparr>r_tag = ''home'', r_attrs = [(''a'', ''1'')]\<rparr>)],
       rt_hash = ''#home%3Fa%3D1''\<rparr>"
  using go_hashchange [OF go_home_hash]
  by (simp add: route_ok_def route_safe_def tag_ok_def attrs_ok_def is_upper_def)


theorem compiled_events_bound_witness:
  "no_tid (TElem ''div'' [] [TElem ''button'' [(''@click'', ''n++'')] [TText ''add'']])
   \<and> events_bound (map fst (tc_binders (snd (parseElemTpl (\<lambda>_ _. True)
         (TElem ''div'' [] [TElem ''button'' [(''@click'', ''n++'')] [TText ''add'']])
         \<lparr>tc_tid = 0, tc_binders = [], tc_elems = []\<rparr>))))
       (fst (parseElemTpl (\<lambda>_ _. True)
         (TElem ''div'' [] [TElem ''button'' [(''@click'', ''n++'')] [TText ''add'']])
         \<lparr>tc_tid = 0, tc_binders = [], tc_elems = []\<rparr>))"
proof -
  have h: "no_tid (TElem ''div'' [] [TElem ''button'' [(''@click'', ''n++'')] [TText ''add'']])" by simp
  show ?thesis using h TplCompile.compiled_events_bound [OF h] by blast
qed


theorem request_reply_roundtrip_witness:
  "ep_results (receive (\<lambda>e :: string. e \<noteq> [])
      (last (ep_posted (receive (\<lambda>e :: string. e \<noteq> [])
         (last (ep_posted (snd (msg_send ''W:Ping'' (Some (3 :: nat)) ((ep_init False)\<lparr>ep_ready := True\<rparr>)))))
         ((ep_init True)\<lparr>ep_listeners := [(''W:Ping'', Some (UserListener (\<lambda>x. Inr x)))]\<rparr>))))
      (snd (msg_send ''W:Ping'' (Some (3 :: nat)) ((ep_init False)\<lparr>ep_ready := True\<rparr>))))
   = [(1, MResolved (Some 3))]"
proof -
  let ?M = "(ep_init False)\<lparr>ep_ready := True\<rparr> :: (nat, string) endpoint"
  let ?W = "(ep_init True)\<lparr>ep_listeners := [(''W:Ping'', Some (UserListener (\<lambda>x. Inr x)))]\<rparr> :: (nat, string) endpoint"
  have wf: "Message.msg_wf ?M" by (simp add: Message.msg_wf_def ep_init_def)
  have rd: "ep_ready ?M \<or> ep_isWorker ?M" by simp
  have sd: "msg_send ''W:Ping'' (Some 3) ?M = (1, snd (msg_send ''W:Ping'' (Some 3) ?M))"
    by (simp add: msg_send_def ep_init_def)
  have lw: "map_of (ep_listeners ?W) ''W:Ping'' = Some (Some (UserListener (\<lambda>x. Inr x)))" by simp
  show ?thesis using Message.request_reply_roundtrip [OF wf rd lw sd, of "\<lambda>e :: string. e \<noteq> []"]
    by (simp add: msg_send_def ep_init_def post_request_def)
qed

theorem msg_wf_reachable_witness:
  "Message.msg_wf (foldl (\<lambda>E op. msg_step (\<lambda>e :: string. e \<noteq> []) op E) (msg_module_init False (None :: nat option))
     [MSend ''M:LoadComponent'' None, MRecv (request ''W:Ready'' 1000000 None)])"
  by (rule Message.msg_wf_reachable)

theorem defer_starts_once_witness:
  "d_starts (defer_run [Call 1, Call 2, Settle (Ok (Some (5 :: nat))), Call 3]) \<le> 1"
  by (rule Defer.defer_starts_once)

theorem defer_answers_all_witness:
  "mset (map fst (d_out (defer_run ([Call 1, Reslove None, Call 2] @ [Settle (Fail :: nat settle)])))) = mset [1, 2]"
  using Defer.defer_answers_all [of "[Call 1, Reslove None, Call 2]" Fail] by simp


theorem preProcess_keeps_data_witness:
  "td_ok (\<lparr>td_props = [], td_scope = [(''v'', \<lparr>d_type = ''string'', d_value = TVStr ''a'', d_orgName = ''v'', d_orgValue = ''a'', d_scopeName = ''v'', d_attName = ''v''\<rparr>)]\<rparr> :: unit tpl_data)
   \<and> (\<exists>r. preProcessElem ((\<lambda>_. None) :: unit evaluator) (TElem ''input'' [(''$$value'', ''v''), (''value'', ''b'')] [])
        \<lparr>td_props = [], td_scope = [(''v'', \<lparr>d_type = ''string'', d_value = TVStr ''a'', d_orgName = ''v'', d_orgValue = ''a'', d_scopeName = ''v'', d_attName = ''v''\<rparr>)]\<rparr> = Some r
        \<and> td_ok (snd r))"
proof -
  let ?D = "\<lparr>td_props = [], td_scope = [(''v'', \<lparr>d_type = ''string'', d_value = TVStr ''a'', d_orgName = ''v'', d_orgValue = ''a'', d_scopeName = ''v'', d_attName = ''v''\<rparr>)]\<rparr> :: unit tpl_data"
  let ?n = "TElem ''input'' [(''$$value'', ''v''), (''value'', ''b'')] []"
  have ok: "td_ok ?D" by code_simp
  have "preProcessElem (\<lambda>_. None) ?n ?D \<noteq> None" by code_simp
  then obtain r where r: "preProcessElem (\<lambda>_. None) ?n ?D = Some r" by blast
  have "td_ok (snd r)" using TplSugar.preProcess_keeps_data [of "\<lambda>_. None" ?n ?D "fst r" "snd r"] r ok by simp
  then show ?thesis using ok r by blast
qed


theorem hot_update_reloads_after_drop_witness:
  "(\<exists>tags U'. hot_update \<lparr>loc_origin = ''http://h'', loc_pathname = ''/app/index.html'', loc_protocol = ''http:'', loc_host = ''h''\<rparr>
         \<lparr>meta_root = None, meta_debug = None, npmUrl = ''http://h/node_modules/'', npmCors = False, modules = [], meta_lang = None\<rparr>
         (\<lambda>t V. (Inr (), snd (getFile \<lparr>meta_root = None, meta_debug = None, npmUrl = ''http://h/node_modules/'', npmCors = False,
                   modules = [], meta_lang = None\<rparr> ''http://h/app/card.js'' V)))
         None ''card''
         (snd (getFile \<lparr>meta_root = None, meta_debug = None, npmUrl = ''http://h/node_modules/'', npmCors = False,
                   modules = [], meta_lang = None\<rparr> ''http://h/app/card.js'' (umd_init :: unit umd)))
       = (Inr tags, U') \<and> hd tags = ''card-'' \<and> umd_wf U' \<and> u_files U' \<noteq> [])"
proof -
  let ?L = "\<lparr>loc_origin = ''http://h'', loc_pathname = ''/app/index.html'', loc_protocol = ''http:'', loc_host = ''h''\<rparr>"
  let ?M = "\<lparr>meta_root = None, meta_debug = None, npmUrl = ''http://h/node_modules/'', npmCors = False, modules = [], meta_lang = None\<rparr>"
  let ?upd = "\<lambda>t V. (Inr (), snd (getFile ?M ''http://h/app/card.js'' V)) :: (unit, unit) uresult"
  let ?U = "snd (getFile ?M ''http://h/app/card.js'' (umd_init :: unit umd))"
  have wf: "umd_wf ?U" by code_simp
  have uw: "upd_wf ?upd" by (simp add: upd_wf_def getFile_wf')
  have ok: "fst (hot_update ?L ?M ?upd None ''card'' ?U) = Inr [''card-'']" by code_simp
  have nf: "u_files (snd (hot_update ?L ?M ?upd None ''card'' ?U)) \<noteq> []" by code_simp
  obtain U' where r: "hot_update ?L ?M ?upd None ''card'' ?U = (Inr [''card-''], U')"
    using ok by (cases "hot_update ?L ?M ?upd None ''card'' ?U") simp
  have "umd_wf U'" using HotLoader.hot_update_reloads_after_drop [OF r] wf uw by simp
  then show ?thesis using r nf by simp
qed




theorem event_prevent_not_passive_witness:
  "\<exists>sp. event_spec (\<lambda>_. True) False ''3'' ''@touchstart.passive.prevent'' = Inr sp \<and> ev_prevent sp \<and> \<not> ev_passive sp"
proof -
  obtain sp where e: "event_spec (\<lambda>_. True) False ''3'' ''@touchstart.passive.prevent'' = Inr sp"
    and p: "ev_prevent sp"
  proof
    show "event_spec (\<lambda>_. True) False ''3'' ''@touchstart.passive.prevent''
      = Inr \<lparr>ev_name = ''touchstart'', ev_style = False, ev_passive = False, ev_once = False, ev_capture = False,
             ev_prevent = True, ev_stop = False, ev_self = False\<rparr>" by code_simp
  qed simp
  show ?thesis using e p WcElem.event_prevent_not_passive [OF e p] by blast
qed

end
